theory Spec2Isabelle
  imports Complex_Main "HOL-Library.Sublist" "HOL-Library.AList" "HOL-Library.Multiset"
    "HOL-Library.Monad_Syntax"
begin

section \<open>Strings\<close>

text \<open>
  A Python \<open>str\<close> is a sequence of Unicode code points, so a string is modelled as the
  list of its code points. \<open>ascii\<close> turns an ASCII literal into such a list; Cyrillic
  text is written by its code points.
\<close>

type_synonym pystr = "nat list"

definition ascii :: "string \<Rightarrow> pystr" where
  "ascii s = map of_char s"

text \<open>
  \<open>str.lower()\<close> is a library function driven by the Unicode case tables, which are not
  part of the program. Every function of the program that lowercases takes the lowercase
  function as its first argument \<open>lower\<close>, so that general results hold for whatever
  that function is. For concrete runs, \<open>lower_latin_cyrillic\<close> is the Unicode lowercase
  mapping on Basic Latin, the Latin-1 Supplement and the Cyrillic capitals
  U+0400 .. U+042F and U+0490; other code points are left as they are.
\<close>

definition lower_cp :: "nat \<Rightarrow> nat" where
  "lower_cp c =
     (if 65 \<le> c \<and> c \<le> 90 then c + 32
      else if 192 \<le> c \<and> c \<le> 222 \<and> c \<noteq> 215 then c + 32
      else if 1040 \<le> c \<and> c \<le> 1071 then c + 32
      else if 1024 \<le> c \<and> c \<le> 1039 then c + 80
      else if c = 1168 then 1169
      else c)"

definition lower_latin_cyrillic :: "pystr \<Rightarrow> pystr" where
  "lower_latin_cyrillic text = map lower_cp text"

text \<open>\<open>text.replace(s, " ")\<close> for a one-character \<open>s\<close>: every occurrence is replaced.\<close>

definition replace_char :: "nat \<Rightarrow> nat \<Rightarrow> pystr \<Rightarrow> pystr" where
  "replace_char old new text = map (\<lambda>c. if c = old then new else c) text"

text \<open>
  \<open>text.split(" ")\<close>: the pieces between the occurrences of the separator, empty pieces
  included; the empty string splits into one empty piece.
\<close>

fun split_on :: "nat \<Rightarrow> pystr \<Rightarrow> pystr list" where
  "split_on sep [] = [[]]"
| "split_on sep (c # cs) =
     (if c = sep then [] # split_on sep cs
      else (case split_on sep cs of
              [] \<Rightarrow> [[c]]
            | w # ws \<Rightarrow> (c # w) # ws))"

text \<open>\<open>sep.join(words)\<close>.\<close>

fun join :: "pystr \<Rightarrow> pystr list \<Rightarrow> pystr" where
  "join sep [] = []"
| "join sep [w] = w"
| "join sep (w # ws) = w @ sep @ join sep ws"

section \<open>Tokenizer\<close>

text \<open>
  The separator string of \<open>tokenize\<close>, in source order:
  \<open>, . ; : ! ? ( ) [ ] { } " '\<close>, the guillemets U+00AB and U+00BB, newline,
  carriage return, tab.
\<close>

definition separators :: pystr where
  "separators = [44, 46, 59, 58, 33, 63, 40, 41, 91, 93, 123, 125, 34, 39, 171, 187, 10, 13, 9]"

definition tokenize :: "(pystr \<Rightarrow> pystr) \<Rightarrow> pystr \<Rightarrow> pystr list" where
  "tokenize lower text =
     (let text1 = lower text;
          text2 = fold (\<lambda>s t. replace_char s 32 t) separators text1
      in filter (\<lambda>t. t \<noteq> []) (split_on 32 text2))"

section \<open>Data model\<close>

text \<open>
  Python floats are modelled as rationals: the literals \<open>1.5\<close>, \<open>1.3\<close>, \<open>0.9\<close>, \<open>0.5\<close>
  stand for themselves and products are exact.
\<close>

record Document =
  doc_id :: int
  title :: pystr
  content :: pystr
  location :: pystr
  category :: pystr
  time_tag :: pystr

text \<open>
  A \<open>Dict[str, float]\<close> is an association list in insertion order; its keys are distinct.
  \<open>d.get(k, default)\<close> is \<open>dict_get\<close>, \<open>d[k] = v\<close> is \<open>AList.update\<close> (an existing key
  keeps its place, a new one goes to the end).
\<close>

type_synonym pydict = "(pystr \<times> rat) list"

definition dict_get :: "(pystr \<times> 'v) list \<Rightarrow> pystr \<Rightarrow> 'v \<Rightarrow> 'v" where
  "dict_get d k dflt = (case map_of d k of None \<Rightarrow> dflt | Some v \<Rightarrow> v)"

record 'w UserContext =
  query_history :: "pystr list"
  user_location :: pystr
  time_segment :: pystr
  preferences :: "(pystr \<times> 'w) list"

definition add_query ::
  "(pystr \<Rightarrow> pystr) \<Rightarrow> pystr \<Rightarrow> 'w UserContext \<Rightarrow> 'w UserContext" where
  "add_query lower query context =
     context\<lparr>query_history := query_history context @ [lower query]\<rparr>"

record BaseResult =
  doc :: Document
  base_score :: rat

record 'f ContextInfo =
  matched_location :: bool
  info_time_segment :: pystr
  doc_time_tag :: pystr
  category_weight :: 'f

record 'f ContextResult = BaseResult +
  final_score :: 'f
  context_info :: "'f ContextInfo"

section \<open>Document loading\<close>

text \<open>
  \<open>load_documents\<close> receives the parsed JSON: a list of objects. An object is modelled
  by its six fields, each present or absent; \<open>d["k"]\<close> on an absent key raises
  \<open>KeyError('k')\<close>, \<open>d.get("time_tag", "any")\<close> does not. The keyword arguments of
  \<open>Document(...)\<close> are evaluated in source order, and the first exception ends the load.
\<close>

record RawRecord =
  raw_id :: "int option"
  raw_title :: "pystr option"
  raw_content :: "pystr option"
  raw_location :: "pystr option"
  raw_category :: "pystr option"
  raw_time_tag :: "pystr option"

datatype error = KeyError string

definition subscript :: "string \<Rightarrow> 'a option \<Rightarrow> error + 'a" where
  "subscript key field = (case field of None \<Rightarrow> Inl (KeyError key) | Some v \<Rightarrow> Inr v)"

definition make_document :: "RawRecord \<Rightarrow> error + Document" where
  "make_document d =
     (case subscript ''id'' (raw_id d) of Inl e \<Rightarrow> Inl e | Inr i \<Rightarrow>
      case subscript ''title'' (raw_title d) of Inl e \<Rightarrow> Inl e | Inr t \<Rightarrow>
      case subscript ''content'' (raw_content d) of Inl e \<Rightarrow> Inl e | Inr c \<Rightarrow>
      case subscript ''location'' (raw_location d) of Inl e \<Rightarrow> Inl e | Inr l \<Rightarrow>
      case subscript ''category'' (raw_category d) of Inl e \<Rightarrow> Inl e | Inr g \<Rightarrow>
        Inr \<lparr>doc_id = i, title = t, content = c, location = l, category = g,
             time_tag = (case raw_time_tag d of None \<Rightarrow> ascii ''any'' | Some v \<Rightarrow> v)\<rparr>)"

fun load_loop :: "RawRecord list \<Rightarrow> Document list \<Rightarrow> error + Document list" where
  "load_loop [] docs = Inr docs"
| "load_loop (d # raw) docs =
     (case make_document d of
        Inl e \<Rightarrow> Inl e
      | Inr document \<Rightarrow> load_loop raw (docs @ [document]))"

definition load_documents :: "RawRecord list \<Rightarrow> error + Document list" where
  "load_documents raw = load_loop raw []"

section \<open>Base scorer\<close>

text \<open>
  \<open>qt in text\<close> on strings is contiguous-substring containment, \<open>sublist qt text\<close>.
  \<open>xs.sort(key=k, reverse=True)\<close> is a stable sort into descending key order; the keys
  are numbers, so it is the stable ascending sort on the negated key.
\<close>

definition sort_desc :: "('a \<Rightarrow> rat) \<Rightarrow> 'a list \<Rightarrow> 'a list" where
  "sort_desc key xs = sort_key (\<lambda>x. - key x) xs"

fun score_loop :: "pystr \<Rightarrow> pystr list \<Rightarrow> rat \<Rightarrow> rat" where
  "score_loop text [] score = score"
| "score_loop text (qt # query_tokens) score =
     score_loop text query_tokens (if sublist qt text then score + 1.0 else score)"

fun search_loop ::
  "(pystr \<Rightarrow> pystr) \<Rightarrow> pystr list \<Rightarrow> Document list \<Rightarrow> BaseResult list \<Rightarrow> BaseResult list" where
  "search_loop lower query_tokens [] results = results"
| "search_loop lower query_tokens (d # documents) results =
     (let text = lower (title d @ ascii '' '' @ content d);
          score = score_loop text query_tokens 0.0
      in search_loop lower query_tokens documents
           (if score > 0 then results @ [\<lparr>doc = d, base_score = score\<rparr>] else results))"

definition search :: "(pystr \<Rightarrow> pystr) \<Rightarrow> Document list \<Rightarrow> pystr \<Rightarrow> BaseResult list" where
  "search lower documents query =
     (let query_tokens = tokenize lower query;
          results = search_loop lower query_tokens documents []
      in sort_desc base_score results)"

section \<open>Context re-ranker\<close>

definition food :: pystr where "food = ascii ''food''"
definition news :: pystr where "news = ascii ''news''"
definition education :: pystr where "education = ascii ''education''"
definition sport :: pystr where "sport = ascii ''sport''"

text \<open>The keywords of \<open>build_history_preferences\<close>, by their code points.\<close>

definition kw_kafe :: pystr where "kw_kafe = [1082, 1072, 1092, 1077]"
definition kw_restoran :: pystr where
  "kw_restoran = [1088, 1077, 1089, 1090, 1086, 1088, 1072, 1085]"
definition kw_yizha :: pystr where "kw_yizha = [1111, 1078, 1072]"
definition kw_novyny :: pystr where "kw_novyny = [1085, 1086, 1074, 1080, 1085, 1080]"
definition kw_news :: pystr where "kw_news = ascii ''news''"
definition kw_kurs :: pystr where "kw_kurs = [1082, 1091, 1088, 1089]"
definition kw_navchannya :: pystr where
  "kw_navchannya = [1085, 1072, 1074, 1095, 1072, 1085, 1085, 1103]"
definition kw_python :: pystr where "kw_python = ascii ''python''"
definition kw_sport :: pystr where "kw_sport = [1089, 1087, 1086, 1088, 1090]"
definition kw_fitnes :: pystr where "kw_fitnes = [1092, 1110, 1090, 1085, 1077, 1089]"
definition kw_baseyn :: pystr where "kw_baseyn = [1073, 1072, 1089, 1077, 1081, 1085]"

text \<open>
  \<open>prefs[k] += 1.0\<close>; the key is one of the four that \<open>prefs\<close> is created with, so the
  lookup cannot fail.
\<close>

definition dict_incr :: "pystr \<Rightarrow> pydict \<Rightarrow> pydict" where
  "dict_incr k prefs = AList.update k (dict_get prefs k 0 + 1.0) prefs"

definition history_step :: "pystr \<Rightarrow> pydict \<Rightarrow> pydict" where
  "history_step q prefs =
     (let prefs = (if sublist kw_kafe q \<or> sublist kw_restoran q \<or> sublist kw_yizha q
                   then dict_incr food prefs else prefs);
          prefs = (if sublist kw_novyny q \<or> sublist kw_news q
                   then dict_incr news prefs else prefs);
          prefs = (if sublist kw_kurs q \<or> sublist kw_navchannya q \<or> sublist kw_python q
                   then dict_incr education prefs else prefs);
          prefs = (if sublist kw_sport q \<or> sublist kw_fitnes q \<or> sublist kw_baseyn q
                   then dict_incr sport prefs else prefs)
      in prefs)"

definition weight_step :: "pystr \<times> rat \<Rightarrow> pydict \<Rightarrow> pydict" where
  "weight_step kv prefs =
     (case kv of (k, v) \<Rightarrow>
        if v > 0 then AList.update k (1.0 + v * 0.5) prefs else AList.update k 1.0 prefs)"

definition build_history_preferences :: "'w UserContext \<Rightarrow> pydict" where
  "build_history_preferences context =
     (let prefs = map (\<lambda>cat. (cat, 0.0)) [food, news, education, sport];
          prefs = fold history_step (query_history context) prefs
      in fold weight_step prefs prefs)"

definition merge_step :: "pystr \<times> rat \<Rightarrow> pydict \<Rightarrow> pydict" where
  "merge_step kv combined_prefs =
     (case kv of (cat, w) \<Rightarrow>
        AList.update cat (dict_get combined_prefs cat 1.0 * w) combined_prefs)"

definition combine_prefs :: "pydict \<Rightarrow> pydict \<Rightarrow> pydict" where
  "combine_prefs history_prefs prefs = fold merge_step prefs history_prefs"

text \<open>The three blocks of the loop body: location, time, category.\<close>

definition location_step :: "(pystr \<Rightarrow> pystr) \<Rightarrow> Document \<Rightarrow> 'w UserContext \<Rightarrow> rat \<Rightarrow> rat" where
  "location_step lower d context score =
     (if lower (location d) = lower (user_location context) then score * 1.5 else score)"

definition time_step :: "Document \<Rightarrow> 'w UserContext \<Rightarrow> rat \<Rightarrow> rat" where
  "time_step d context score =
     (if time_tag d = time_segment context then score * 1.3
      else if time_tag d = ascii ''any'' then score * 1.0
      else score * 0.9)"

definition adapt ::
  "(pystr \<Rightarrow> pystr) \<Rightarrow> 'w UserContext \<Rightarrow> pydict \<Rightarrow> BaseResult \<Rightarrow> rat ContextResult" where
  "adapt lower context combined_prefs item =
     (let d = doc item;
          score = base_score item;
          score = location_step lower d context score;
          score = time_step d context score;
          cat_weight = dict_get combined_prefs (category d) 1.0;
          score = score * cat_weight
      in \<lparr>doc = d, base_score = base_score item, final_score = score,
          context_info =
            \<lparr>matched_location = (lower (location d) = lower (user_location context)),
             info_time_segment = time_segment context,
             doc_time_tag = time_tag d,
             category_weight = cat_weight\<rparr>\<rparr>)"

definition search_with_context ::
  "(pystr \<Rightarrow> pystr) \<Rightarrow> Document list \<Rightarrow> pystr \<Rightarrow> rat UserContext \<Rightarrow> rat ContextResult list" where
  "search_with_context lower documents query context =
     (let base_results = search lower documents query
      in if base_results = [] then []
         else
           (let history_prefs = build_history_preferences context;
                combined_prefs = combine_prefs history_prefs (preferences context);
                adapted_results =
                  fold (\<lambda>item acc. acc @ [adapt lower context combined_prefs item])
                    base_results []
            in sort_desc final_score adapted_results))"

section \<open>Quantities named by the specification\<close>

text \<open>
  The number of query tokens, duplicates counted, that occur as a substring of the lowercased
  title, space, content of a document.
\<close>

definition match_count :: "(pystr \<Rightarrow> pystr) \<Rightarrow> pystr \<Rightarrow> Document \<Rightarrow> nat" where
  "match_count lower query d =
     length (filter (\<lambda>qt. sublist qt (lower (title d @ [32] @ content d))) (tokenize lower query))"

text \<open>
  The trigger substrings of a category, as a table, and the accumulator of a category: the
  number of history queries that contain one of its triggers.
\<close>

definition triggers :: "pystr \<Rightarrow> pystr list" where
  "triggers cat =
     (if cat = food then [kw_kafe, kw_restoran, kw_yizha]
      else if cat = news then [kw_novyny, kw_news]
      else if cat = education then [kw_kurs, kw_navchannya, kw_python]
      else if cat = sport then [kw_sport, kw_fitnes, kw_baseyn]
      else [])"

definition accumulator :: "pystr \<Rightarrow> pystr list \<Rightarrow> nat" where
  "accumulator cat history = length (filter (\<lambda>q. list_ex (\<lambda>kw. sublist kw q) (triggers cat)) history)"

text \<open>
  The weight a category gets from the history.
\<close>

definition history_weight :: "pystr \<Rightarrow> pystr list \<Rightarrow> rat" where
  "history_weight cat history =
     (if accumulator cat history > 0 then 1.0 + of_nat (accumulator cat history) * 0.5 else 1.0)"

text \<open>
  The first required field a raw record lacks, in the order id, title, content, location,
  category; and what it means for a document to carry the fields of a raw record.
\<close>

definition first_missing :: "RawRecord \<Rightarrow> string option" where
  "first_missing d =
     (if raw_id d = None then Some ''id''
      else if raw_title d = None then Some ''title''
      else if raw_content d = None then Some ''content''
      else if raw_location d = None then Some ''location''
      else if raw_category d = None then Some ''category''
      else None)"

definition loaded :: "RawRecord \<Rightarrow> Document \<Rightarrow> bool" where
  "loaded d document \<longleftrightarrow>
     raw_id d = Some (doc_id document) \<and> raw_title d = Some (title document) \<and>
     raw_content d = Some (content document) \<and> raw_location d = Some (location document) \<and>
     raw_category d = Some (category document) \<and>
     time_tag document = (case raw_time_tag d of None \<Rightarrow> ascii ''any'' | Some v \<Rightarrow> v)"

text \<open>
  The dict of \<open>build_history_preferences\<close> with its four keys in their order, and whether a
  query hits a category.
\<close>

definition prefs4 :: "rat \<Rightarrow> rat \<Rightarrow> rat \<Rightarrow> rat \<Rightarrow> pydict" where
  "prefs4 a b c d = [(food, a), (news, b), (education, c), (sport, d)]"

definition hit :: "pystr \<Rightarrow> pystr \<Rightarrow> rat" where
  "hit cat q = (if list_ex (\<lambda>kw. sublist kw q) (triggers cat) then 1 else 0)"

section \<open>Example data\<close>

text \<open>
  The corpus and the context of the specification's end-to-end example: title
  \<open>U+041A U+0430 U+0444 U+0435\<close> \<open>U+041F U+0435 U+0440 U+043B U+0438 U+043D U+0430\<close>, content
  \<open>U+0441 U+043C U+0430 U+0447 U+043D U+0430\<close> \<open>U+0457 U+0436 U+0430\<close>, and a history of one
  query that starts with the food keyword.
\<close>

definition example_doc :: Document where
  "example_doc =
     \<lparr>doc_id = 1,
      title = [1050, 1072, 1092, 1077, 32, 1055, 1077, 1088, 1083, 1080, 1085, 1072],
      content = [1089, 1084, 1072, 1095, 1085, 1072, 32, 1111, 1078, 1072],
      location = ascii ''Kyiv'', category = ascii ''food'', time_tag = ascii ''any''\<rparr>"

definition example_context :: "'w UserContext" where
  "example_context =
     \<lparr>query_history = [[1082, 1072, 1092, 1077, 32, 1093, 1086, 1088, 1086, 1096, 1077]],
      user_location = ascii ''Kyiv'', time_segment = ascii ''any'', preferences = []\<rparr>"

text \<open>
  A document tagged any under a context whose segment is any; neither the location nor a
  preference applies.
\<close>

definition anytime_doc :: Document where
  "anytime_doc =
     \<lparr>doc_id = 7, title = ascii ''Tea house'', content = ascii ''green leaves'',
      location = ascii ''Lviv'', category = ascii ''drinks'', time_tag = ascii ''any''\<rparr>"

definition anytime_context :: "rat UserContext" where
  "anytime_context =
     \<lparr>query_history = [], user_location = ascii ''Kyiv'', time_segment = ascii ''any'',
      preferences = []\<rparr>"

text \<open>
  A document tagged morning, and a context whose segment is none of the three values.
\<close>

definition morning_doc :: Document where
  "morning_doc =
     \<lparr>doc_id = 3, title = ascii ''Bakery'', content = ascii ''fresh bread'',
      location = ascii ''Lviv'', category = ascii ''shops'', time_tag = ascii ''morning''\<rparr>"

definition night_context :: "rat UserContext" where
  "night_context =
     \<lparr>query_history = [], user_location = ascii ''Kyiv'', time_segment = ascii ''night'',
      preferences = []\<rparr>"




text \<open>
  A history of two food queries and one news query, with two explicit preferences, one of
  them for a category outside the four.
\<close>

definition history_context :: "rat UserContext" where
  "history_context =
     \<lparr>query_history = [kw_kafe, kw_restoran @ ascii '' '' @ kw_yizha, ascii ''sport news''],
      user_location = ascii ''Kyiv'', time_segment = ascii ''any'',
      preferences = [(ascii ''food'', 2.0), (ascii ''travel'', 3.0)]\<rparr>"

text \<open>
  A raw record without a time tag, and one that lacks its title and its category.
\<close>

definition raw_ok :: RawRecord where
  "raw_ok =
     \<lparr>raw_id = Some 1, raw_title = Some (ascii ''Tea''), raw_content = Some (ascii ''shop''),
      raw_location = Some (ascii ''Lviv''), raw_category = Some (ascii ''food''),
      raw_time_tag = None\<rparr>"

definition raw_no_title :: RawRecord where
  "raw_no_title =
     \<lparr>raw_id = Some 2, raw_title = None, raw_content = Some (ascii ''shop''),
      raw_location = Some (ascii ''Lviv''), raw_category = None,
      raw_time_tag = Some (ascii ''morning'')\<rparr>"

section \<open>Objects, references and mutation\<close>

text \<open>
  The functions above compute on values. To speak about mutation the same code is modelled
  once more on a store of objects: a reference is an index into the store of its kind of
  object, allocation appends, and a write replaces the object at a reference. There is one
  store for the Document objects, one for the engines (the reference of \<open>self.documents\<close>), one
  for the contexts (the reference of the history list, location, time segment, the
  reference of the preferences dict), one for the lists of strings, one for the lists of
  references (a document list, a result list), one for the dicts from strings to floats, and
  one each for the two shapes of result dict (the reference of the document, then the
  scores). Objects of different kinds are never the same object; two references of one kind
  may be. Strings and floats are immutable and stay values. A read of a reference that is
  not in the store has no result.
\<close>

type_synonym addr = nat

record heap =
  document_objs :: "Document list"
  engine_objs :: "addr list"
  context_objs :: "(addr \<times> pystr \<times> pystr \<times> addr) list"
  str_lists :: "pystr list list"
  ref_lists :: "addr list list"
  float_dicts :: "pydict list"
  base_result_objs :: "(addr \<times> rat) list"
  context_result_objs :: "(addr \<times> rat \<times> rat \<times> rat ContextInfo) list"

text \<open>
  Reading a reference, and the operations on lists and dicts that the code uses:
  \<open>[]\<close>, \<open>xs.append(x)\<close>, \<open>xs.sort(key=..., reverse=True)\<close>, a new dict, \<open>d[k] = v\<close> in its
  forms, and the two result dict displays.
\<close>

definition lookup :: "'a list \<Rightarrow> addr \<Rightarrow> 'a option" where
  "lookup store a = (if a < length store then Some (store ! a) else None)"

definition new_list :: "heap \<Rightarrow> addr \<times> heap" where
  "new_list h = (length (ref_lists h), h\<lparr>ref_lists := ref_lists h @ [[]]\<rparr>)"

definition list_append :: "addr \<Rightarrow> addr \<Rightarrow> heap \<Rightarrow> heap option" where
  "list_append xs x h =
     do { items \<leftarrow> lookup (ref_lists h) xs;
          Some (h\<lparr>ref_lists := (ref_lists h)[xs := items @ [x]]\<rparr>) }"

definition list_sort :: "addr \<Rightarrow> (addr \<Rightarrow> rat option) \<Rightarrow> heap \<Rightarrow> heap option" where
  "list_sort xs key h =
     do { items \<leftarrow> lookup (ref_lists h) xs;
          keys \<leftarrow> those (map key items);
          Some (h\<lparr>ref_lists := (ref_lists h)[xs := map snd (sort_desc fst (zip keys items))]\<rparr>) }"

definition new_dict :: "pydict \<Rightarrow> heap \<Rightarrow> addr \<times> heap" where
  "new_dict d h = (length (float_dicts h), h\<lparr>float_dicts := float_dicts h @ [d]\<rparr>)"

definition dict_modify :: "addr \<Rightarrow> (pydict \<Rightarrow> pydict) \<Rightarrow> heap \<Rightarrow> heap option" where
  "dict_modify a f h =
     do { d \<leftarrow> lookup (float_dicts h) a;
          Some (h\<lparr>float_dicts := (float_dicts h)[a := f d]\<rparr>) }"

definition new_base_result :: "addr \<Rightarrow> rat \<Rightarrow> heap \<Rightarrow> addr \<times> heap" where
  "new_base_result d score h =
     (length (base_result_objs h), h\<lparr>base_result_objs := base_result_objs h @ [(d, score)]\<rparr>)"

definition new_context_result :: "addr \<Rightarrow> rat ContextResult \<Rightarrow> heap \<Rightarrow> addr \<times> heap" where
  "new_context_result d r h =
     (length (context_result_objs h),
      h\<lparr>context_result_objs :=
          context_result_objs h @ [(d, base_score r, final_score r, context_info r)]\<rparr>)"

text \<open>
  What a store holds, read as values: the documents of an engine, a context, and the results
  in a list.
\<close>

definition read_engine :: "addr \<Rightarrow> heap \<Rightarrow> Document list option" where
  "read_engine self h =
     do { documents \<leftarrow> lookup (engine_objs h) self;
          refs \<leftarrow> lookup (ref_lists h) documents;
          those (map (lookup (document_objs h)) refs) }"

definition read_context :: "addr \<Rightarrow> heap \<Rightarrow> rat UserContext option" where
  "read_context context h =
     do { (history, loc, seg, prefs) \<leftarrow> lookup (context_objs h) context;
          qs \<leftarrow> lookup (str_lists h) history;
          ps \<leftarrow> lookup (float_dicts h) prefs;
          Some \<lparr>query_history = qs, user_location = loc, time_segment = seg, preferences = ps\<rparr> }"

definition read_base_result :: "heap \<Rightarrow> addr \<Rightarrow> BaseResult option" where
  "read_base_result h item =
     do { (d, score) \<leftarrow> lookup (base_result_objs h) item;
          document \<leftarrow> lookup (document_objs h) d;
          Some \<lparr>doc = document, base_score = score\<rparr> }"

definition read_base_results :: "addr \<Rightarrow> heap \<Rightarrow> BaseResult list option" where
  "read_base_results results h =
     do { items \<leftarrow> lookup (ref_lists h) results;
          those (map (read_base_result h) items) }"

definition read_context_result :: "heap \<Rightarrow> addr \<Rightarrow> rat ContextResult option" where
  "read_context_result h item =
     do { (d, base, final, info) \<leftarrow> lookup (context_result_objs h) item;
          document \<leftarrow> lookup (document_objs h) d;
          Some \<lparr>doc = document, base_score = base, final_score = final, context_info = info\<rparr> }"

definition read_context_results :: "addr \<Rightarrow> heap \<Rightarrow> rat ContextResult list option" where
  "read_context_results results h =
     do { items \<leftarrow> lookup (ref_lists h) results;
          those (map (read_context_result h) items) }"

text \<open>
  \<open>BasicSearchEngine.search\<close> on the store. The tokens are a value; \<open>results\<close> is a new
  list, appended to and sorted in place.
\<close>

fun search_loop_h ::
  "(pystr \<Rightarrow> pystr) \<Rightarrow> pystr list \<Rightarrow> addr list \<Rightarrow> addr \<Rightarrow> heap \<Rightarrow> heap option" where
  "search_loop_h lower query_tokens [] results h = Some h"
| "search_loop_h lower query_tokens (d # documents) results h =
     do { document \<leftarrow> lookup (document_objs h) d;
          let text = lower (title document @ ascii '' '' @ content document);
          let score = score_loop text query_tokens 0.0;
          h \<leftarrow> (if score > 0
                then (case new_base_result d score h of (item, h) \<Rightarrow> list_append results item h)
                else Some h);
          search_loop_h lower query_tokens documents results h }"

definition search_h ::
  "(pystr \<Rightarrow> pystr) \<Rightarrow> addr \<Rightarrow> pystr \<Rightarrow> heap \<Rightarrow> (addr \<times> heap) option" where
  "search_h lower self query h =
     (let query_tokens = tokenize lower query in
      case new_list h of (results, h) \<Rightarrow>
        do { documents \<leftarrow> lookup (engine_objs h) self;
             refs \<leftarrow> lookup (ref_lists h) documents;
             h \<leftarrow> search_loop_h lower query_tokens refs results h;
             h \<leftarrow> list_sort results (\<lambda>x. map_option snd (lookup (base_result_objs h) x)) h;
             Some (results, h) })"

text \<open>
  \<open>build_history_preferences\<close> on the store: \<open>prefs\<close> is a new dict, written by both
  loops. \<open>dict_loop_h\<close> runs a loop over dict items whose body assigns into the dict
  \<open>target\<close>.
\<close>

fun history_loop_h :: "pystr list \<Rightarrow> addr \<Rightarrow> heap \<Rightarrow> heap option" where
  "history_loop_h [] prefs h = Some h"
| "history_loop_h (q # history) prefs h =
     do { h \<leftarrow> (if sublist kw_kafe q \<or> sublist kw_restoran q \<or> sublist kw_yizha q
                then dict_modify prefs (dict_incr food) h else Some h);
          h \<leftarrow> (if sublist kw_novyny q \<or> sublist kw_news q
                then dict_modify prefs (dict_incr news) h else Some h);
          h \<leftarrow> (if sublist kw_kurs q \<or> sublist kw_navchannya q \<or> sublist kw_python q
                then dict_modify prefs (dict_incr education) h else Some h);
          h \<leftarrow> (if sublist kw_sport q \<or> sublist kw_fitnes q \<or> sublist kw_baseyn q
                then dict_modify prefs (dict_incr sport) h else Some h);
          history_loop_h history prefs h }"

fun dict_loop_h ::
  "(pystr \<times> rat \<Rightarrow> pydict \<Rightarrow> pydict) \<Rightarrow> (pystr \<times> rat) list \<Rightarrow> addr \<Rightarrow> heap \<Rightarrow> heap option" where
  "dict_loop_h step [] target h = Some h"
| "dict_loop_h step (kv # items) target h =
     do { h \<leftarrow> dict_modify target (step kv) h;
          dict_loop_h step items target h }"

definition build_history_preferences_h :: "addr \<Rightarrow> heap \<Rightarrow> (addr \<times> heap) option" where
  "build_history_preferences_h context h =
     (case new_dict (map (\<lambda>cat. (cat, 0.0)) [food, news, education, sport]) h of (prefs, h) \<Rightarrow>
        do { (history, loc, seg, explicit) \<leftarrow> lookup (context_objs h) context;
             qs \<leftarrow> lookup (str_lists h) history;
             h \<leftarrow> history_loop_h qs prefs h;
             items \<leftarrow> lookup (float_dicts h) prefs;
             h \<leftarrow> dict_loop_h weight_step items prefs h;
             Some (prefs, h) })"

text \<open>
  \<open>search_with_context\<close> on the store: \<open>combined_prefs\<close> is the copy of the history
  preferences, a new dict; \<open>adapted_results\<close> is a new list. The body of the loop reads the
  item, its document and the context, and computes as \<open>adapt\<close> does.
\<close>

fun adapt_loop_h ::
  "(pystr \<Rightarrow> pystr) \<Rightarrow> addr \<Rightarrow> addr \<Rightarrow> addr list \<Rightarrow> addr \<Rightarrow> heap \<Rightarrow> heap option" where
  "adapt_loop_h lower context combined_prefs [] adapted_results h = Some h"
| "adapt_loop_h lower context combined_prefs (item # base_results) adapted_results h =
     do { (d, score) \<leftarrow> lookup (base_result_objs h) item;
          document \<leftarrow> lookup (document_objs h) d;
          ctx \<leftarrow> read_context context h;
          prefs \<leftarrow> lookup (float_dicts h) combined_prefs;
          h \<leftarrow> (case new_context_result d
                       (adapt lower ctx prefs \<lparr>doc = document, base_score = score\<rparr>) h of
                  (r, h) \<Rightarrow> list_append adapted_results r h);
          adapt_loop_h lower context combined_prefs base_results adapted_results h }"

definition search_with_context_h ::
  "(pystr \<Rightarrow> pystr) \<Rightarrow> addr \<Rightarrow> pystr \<Rightarrow> addr \<Rightarrow> heap \<Rightarrow> (addr \<times> heap) option" where
  "search_with_context_h lower self query context h =
     do { (base_results, h) \<leftarrow> search_h lower self query h;
          items \<leftarrow> lookup (ref_lists h) base_results;
          if items = [] then Some (new_list h)
          else
            do { (history_prefs, h) \<leftarrow> build_history_preferences_h context h;
                 copied \<leftarrow> lookup (float_dicts h) history_prefs;
                 (case new_dict copied h of (combined_prefs, h) \<Rightarrow>
                    do { (history, loc, seg, explicit) \<leftarrow> lookup (context_objs h) context;
                         ps \<leftarrow> lookup (float_dicts h) explicit;
                         h \<leftarrow> dict_loop_h merge_step ps combined_prefs h;
                         (case new_list h of (adapted_results, h) \<Rightarrow>
                            do { h \<leftarrow> adapt_loop_h lower context combined_prefs items adapted_results h;
                                 h \<leftarrow> list_sort adapted_results
                                        (\<lambda>x. map_option (\<lambda>(d, base, final, info). final)
                                                (lookup (context_result_objs h) x)) h;
                                 Some (adapted_results, h) }) }) } }"

text \<open>
  Every object of the first store is in the second, as it was. The stores of result dicts
  are part of it, so result lists of earlier calls are covered as well.
\<close>

definition unchanged :: "heap \<Rightarrow> heap \<Rightarrow> bool" where
  "unchanged h h' \<longleftrightarrow>
     document_objs h' = document_objs h \<and> engine_objs h' = engine_objs h \<and>
     context_objs h' = context_objs h \<and> str_lists h' = str_lists h \<and>
     prefix (ref_lists h) (ref_lists h') \<and> prefix (float_dicts h) (float_dicts h') \<and>
     prefix (base_result_objs h) (base_result_objs h') \<and>
     prefix (context_result_objs h) (context_result_objs h')"

text \<open>
  Quantities for the proofs on the store: the score of a document, the result dicts the
  loop of \<open>search\<close> allocates and the results they denote, the references of these in sorted
  order, and the result dict allocated for an item by the loop of \<open>search_with_context\<close>.
\<close>

definition score_of :: "(pystr \<Rightarrow> pystr) \<Rightarrow> pystr list \<Rightarrow> Document \<Rightarrow> rat" where
  "score_of lower query_tokens document =
     score_loop (lower (title document @ ascii '' '' @ content document)) query_tokens 0.0"

definition hits ::
  "(pystr \<Rightarrow> pystr) \<Rightarrow> pystr list \<Rightarrow> addr list \<Rightarrow> Document list \<Rightarrow> (addr \<times> rat) list" where
  "hits lower query_tokens refs docs =
     map (\<lambda>(d, document). (d, score_of lower query_tokens document))
       (filter (\<lambda>(d, document). score_of lower query_tokens document > 0) (zip refs docs))"

definition hit_results ::
  "(pystr \<Rightarrow> pystr) \<Rightarrow> pystr list \<Rightarrow> Document list \<Rightarrow> BaseResult list" where
  "hit_results lower query_tokens docs =
     map (\<lambda>document. \<lparr>doc = document, base_score = score_of lower query_tokens document\<rparr>)
       (filter (\<lambda>document. score_of lower query_tokens document > 0) docs)"

definition sorted_hits :: "heap \<Rightarrow> (addr \<times> rat) list \<Rightarrow> addr list" where
  "sorted_hits h hs =
     map snd (sort_desc fst
       (zip (map snd hs) [length (base_result_objs h) ..< length (base_result_objs h) + length hs]))"

definition adapted_obj ::
  "(pystr \<Rightarrow> pystr) \<Rightarrow> rat UserContext \<Rightarrow> pydict \<Rightarrow> heap \<Rightarrow> addr \<Rightarrow> addr \<times> rat \<times> rat \<times> rat ContextInfo" where
  "adapted_obj lower ctx prefs h item =
     (case base_result_objs h ! item of (d, score) \<Rightarrow>
        (let r = adapt lower ctx prefs \<lparr>doc = document_objs h ! d, base_score = score\<rparr>
         in (d, base_score r, final_score r, context_info r)))"

text \<open>
  A store holding the corpus and the context of the end-to-end example.
\<close>

definition example_heap :: heap where
  "example_heap =
     \<lparr>document_objs = [example_doc], engine_objs = [0],
      context_objs = [(0, user_location (example_context :: rat UserContext), time_segment (example_context :: rat UserContext), 0)],
      str_lists = [query_history (example_context :: rat UserContext)],
      ref_lists = [[0]], float_dicts = [preferences (example_context :: rat UserContext)],
      base_result_objs = [], context_result_objs = []\<rparr>"

section \<open>Unfolding for concrete runs\<close>

lemmas eval_defs = tokenize_def lower_latin_cyrillic_def lower_cp_def ascii_def separators_def replace_char_def
  search_def sort_desc_def search_with_context_def build_history_preferences_def history_step_def weight_step_def
  dict_incr_def dict_get_def combine_prefs_def merge_step_def adapt_def location_step_def time_step_def
  food_def news_def education_def sport_def kw_kafe_def kw_restoran_def kw_yizha_def kw_novyny_def kw_news_def
  kw_kurs_def kw_navchannya_def kw_python_def kw_sport_def kw_fitnes_def kw_baseyn_def sublist_code Let_def

section \<open>The tokenizer\<close>

lemma fold_replace_char:
  "new \<notin> set seps \<Longrightarrow>
   fold (\<lambda>s t. replace_char s new t) seps str = map (\<lambda>c. if c \<in> set seps then new else c) str"
proof (induction seps arbitrary: str)
  case Nil
  then show ?case by simp
next
  case (Cons s seps)
  then show ?case by (auto simp: replace_char_def)
qed

lemma space_not_separator: "32 \<notin> set separators"
  by (simp add: separators_def)

lemma tokenize_map:
  "tokenize lower text =
     filter (\<lambda>t. t \<noteq> []) (split_on 32 (map (\<lambda>c. if c \<in> set separators then 32 else c) (lower text)))"
  by (simp add: tokenize_def fold_replace_char [OF space_not_separator])

lemma split_on_nonempty: "split_on sep xs \<noteq> []"
  by (induction xs) (auto split: list.splits)

lemma split_on_no_sep: "w \<in> set (split_on sep xs) \<Longrightarrow> sep \<notin> set w"
  by (induction xs arbitrary: w) (auto split: list.splits if_splits)

lemma split_on_subset: "w \<in> set (split_on sep xs) \<Longrightarrow> set w \<subseteq> set xs"
proof (induction xs arbitrary: w)
  case Nil
  then show ?case by simp
next
  case (Cons c cs)
  show ?case
  proof (cases "c = sep")
    case True
    with Cons show ?thesis by auto
  next
    case False
    obtain v vs where split: "split_on sep cs = v # vs"
      using split_on_nonempty [of sep cs] by (cases "split_on sep cs") auto
    with False Cons.prems have "w = c # v \<or> w \<in> set vs" by simp
    moreover have "set v \<subseteq> set cs" using Cons.IH [of v] split by simp
    moreover have "w \<in> set vs \<Longrightarrow> set w \<subseteq> set cs" using Cons.IH [of w] split by simp
    ultimately show ?thesis by auto
  qed
qed

lemma concat_split_on: "concat (split_on sep xs) = filter (\<lambda>c. c \<noteq> sep) xs"
  by (induction xs) (auto split: list.splits)

lemma split_on_single: "sep \<notin> set w \<Longrightarrow> split_on sep w = [w]"
  by (induction w) auto

lemma split_on_append: "sep \<notin> set w \<Longrightarrow> split_on sep (w @ sep # rest) = w # split_on sep rest"
  by (induction w) auto

lemma split_on_join:
  "ws \<noteq> [] \<Longrightarrow> (\<And>w. w \<in> set ws \<Longrightarrow> sep \<notin> set w) \<Longrightarrow> split_on sep (join [sep] ws) = ws"
proof (induction ws)
  case Nil
  then show ?case by simp
next
  case (Cons w ws)
  show ?case
  proof (cases ws)
    case Nil
    with Cons.prems show ?thesis by (simp add: split_on_single)
  next
    case (Cons v vs)
    with Cons.IH Cons.prems have "split_on sep (join [sep] ws) = ws" by simp
    with Cons Cons.prems show ?thesis by (simp add: split_on_append)
  qed
qed

lemma set_join: "set (join sep ws) \<subseteq> set sep \<union> \<Union> (set ` set ws)"
  by (induction sep ws rule: join.induct) auto

lemma token_props:
  assumes "t \<in> set (tokenize lower s)"
  shows "t \<noteq> []" and "32 \<notin> set t" and "set t \<inter> set separators = {}" and "set t \<subseteq> set (lower s)"
proof -
  let ?m = "map (\<lambda>c. if c \<in> set separators then 32 else c) (lower s)"
  from assms have in_split: "t \<in> set (split_on 32 ?m)" and ne: "t \<noteq> []"
    by (auto simp: tokenize_map)
  show "t \<noteq> []" by (rule ne)
  show no_sp: "32 \<notin> set t" using in_split by (rule split_on_no_sep)
  have sub: "set t \<subseteq> set ?m" using in_split by (rule split_on_subset)
  show "set t \<inter> set separators = {}"
  proof (rule ccontr)
    assume "set t \<inter> set separators \<noteq> {}"
    then obtain c where c: "c \<in> set t" "c \<in> set separators" by auto
    with sub have "c \<in> set ?m" by auto
    with c(2) have "c = 32" by (auto split: if_splits)
    with c(1) no_sp show False by simp
  qed
  show "set t \<subseteq> set (lower s)"
  proof
    fix c assume c: "c \<in> set t"
    with sub have "c \<in> set ?m" by auto
    then obtain c' where "c' \<in> set (lower s)" "c = (if c' \<in> set separators then 32 else c')" by auto
    with c no_sp show "c \<in> set (lower s)" by (auto split: if_splits)
  qed
qed

lemma tokenize_fixed:
  assumes "lower text = text" "ws \<noteq> []" "text = join [32] ws"
    and "\<And>w. w \<in> set ws \<Longrightarrow> w \<noteq> [] \<and> 32 \<notin> set w \<and> set w \<inter> set separators = {}"
  shows "tokenize lower text = ws"
proof -
  have "set text \<inter> set separators = {}"
    using set_join [of "[32]" ws] assms(3,4) space_not_separator by auto
  then have "map (\<lambda>c. if c \<in> set separators then 32 else c) text = text"
    by (intro map_idI) auto
  then have "tokenize lower text = filter (\<lambda>t. t \<noteq> []) (split_on 32 text)"
    by (simp add: tokenize_map assms(1))
  also have "split_on 32 text = ws"
    unfolding assms(3) using assms(2,4) by (intro split_on_join) auto
  also have "filter (\<lambda>t. t \<noteq> []) ws = ws"
    using assms(4) by (intro filter_True) auto
  finally show ?thesis .
qed

lemma join_split_on: "join [sep] (split_on sep xs) = xs"
proof (induction xs)
  case Nil
  then show ?case by simp
next
  case (Cons c cs)
  obtain w ws where split: "split_on sep cs = w # ws"
    using split_on_nonempty [of sep cs] by (cases "split_on sep cs") auto
  with Cons show ?case by (cases ws) auto
qed

lemma filter_replaced:
  "filter (\<lambda>c. c \<noteq> new) (map (\<lambda>c. if c \<in> S then new else c) xs)
     = filter (\<lambda>c. c \<noteq> new \<and> c \<notin> S) xs"
  by (induction xs) auto

lemma concat_filter_nonempty: "concat (filter (\<lambda>t. t \<noteq> []) xss) = concat xss"
  by (induction xss) auto

lemma concat_tokenize:
  "concat (tokenize lower s) = filter (\<lambda>c. c \<noteq> 32 \<and> c \<notin> set separators) (lower s)"
  by (simp add: tokenize_map concat_filter_nonempty concat_split_on filter_replaced)

lemma tokenize_only_separators:
  assumes "set (lower s) \<subseteq> insert 32 (set separators)"
  shows "tokenize lower s = []"
proof (rule ccontr)
  assume "tokenize lower s \<noteq> []"
  then obtain t where t: "t \<in> set (tokenize lower s)" by (cases "tokenize lower s") auto
  then have "t \<noteq> []" by (rule token_props)
  with t have "concat (tokenize lower s) \<noteq> []" by auto
  moreover have "filter (\<lambda>c. c \<noteq> 32 \<and> c \<notin> set separators) (lower s) = []"
    using assms by (auto simp: filter_empty_conv)
  ultimately show False by (simp add: concat_tokenize)
qed

lemma lower_cp_separator: "c \<in> set separators \<Longrightarrow> lower_cp c = c"
  by (auto simp: separators_def lower_cp_def)

lemma lower_latin_cyrillic_separators:
  "set s \<subseteq> set separators \<Longrightarrow> lower_latin_cyrillic s = s"
  unfolding lower_latin_cyrillic_def by (intro map_idI lower_cp_separator) auto

lemma lower_cp_idem: "lower_cp (lower_cp c) = lower_cp c"
  by (simp add: lower_cp_def)

lemma lower_latin_cyrillic_stable:
  "set t \<subseteq> insert 32 (set (lower_latin_cyrillic s)) \<Longrightarrow> lower_latin_cyrillic t = t"
proof -
  assume a: "set t \<subseteq> insert 32 (set (lower_latin_cyrillic s))"
  have "\<And>c. c \<in> set t \<Longrightarrow> lower_cp c = c"
  proof -
    fix c assume "c \<in> set t"
    with a have "c = 32 \<or> (\<exists>c'. c = lower_cp c')" by (auto simp: lower_latin_cyrillic_def)
    then show "lower_cp c = c" by (auto simp: lower_cp_idem) (simp add: lower_cp_def)
  qed
  then show ?thesis unfolding lower_latin_cyrillic_def by (intro map_idI)
qed

text \<open>
  Claim C7, as the code has it. \<open>tokenize\<close> lowercases, replaces every separator by a
  space, splits on spaces and drops the empty pieces; the tokens keep the order and the
  duplicates of the text. The separators are comma, period, semicolon, colon, exclamation
  mark, question mark, parentheses, brackets, braces, the straight double and single quote,
  the guillemets U+00AB and U+00BB, newline, carriage return and tab; the curly quotes
  U+2018, U+2019, U+201C, U+201D are not among them. The empty string and a string of
  separators only give no token, and \<open>Hello, World!\<close> gives \<open>hello\<close>, \<open>world\<close>.
\<close>

theorem tokenize_specification:
  "set separators = {44, 46, 59, 58, 33, 63, 40, 41, 91, 93, 123, 125, 34, 39, 171, 187, 10, 13, 9}
   \<and> tokenize lower s =
       filter (\<lambda>t. t \<noteq> [])
         (split_on 32 (map (\<lambda>c. if c \<in> set separators then 32 else c) (lower s)))
   \<and> join [32] (split_on 32 s) = s \<and> 32 \<notin> set (concat (split_on 32 s))
   \<and> concat (tokenize lower s) = filter (\<lambda>c. c \<noteq> 32 \<and> c \<notin> set separators) (lower s)
   \<and> (set (lower s) \<subseteq> insert 32 (set separators) \<longrightarrow> tokenize lower s = [])
   \<and> tokenize lower_latin_cyrillic [] = []
   \<and> (set s \<subseteq> set separators \<longrightarrow> tokenize lower_latin_cyrillic s = [])
   \<and> tokenize lower_latin_cyrillic (ascii ''Hello, World!'') = [ascii ''hello'', ascii ''world'']"
proof (intro conjI impI)
  show "set separators = {44, 46, 59, 58, 33, 63, 40, 41, 91, 93, 123, 125, 34, 39, 171, 187, 10, 13, 9}"
    by (simp add: separators_def)
  show "tokenize lower s =
       filter (\<lambda>t. t \<noteq> [])
         (split_on 32 (map (\<lambda>c. if c \<in> set separators then 32 else c) (lower s)))"
    by (rule tokenize_map)
  show "join [32] (split_on 32 s) = s" by (rule join_split_on)
  show "32 \<notin> set (concat (split_on 32 s))" by (simp add: concat_split_on)
  show "concat (tokenize lower s) = filter (\<lambda>c. c \<noteq> 32 \<and> c \<notin> set separators) (lower s)"
    by (rule concat_tokenize)
  show "tokenize lower s = []" if "set (lower s) \<subseteq> insert 32 (set separators)"
    using that by (rule tokenize_only_separators)
  show "tokenize lower_latin_cyrillic [] = []"
    by (simp add: tokenize_map lower_latin_cyrillic_def)
  show "tokenize lower_latin_cyrillic s = []" if "set s \<subseteq> set separators"
    using that by (intro tokenize_only_separators) (auto simp: lower_latin_cyrillic_separators)
  show "tokenize lower_latin_cyrillic (ascii ''Hello, World!'') = [ascii ''hello'', ascii ''world'']"
    by (simp add: eval_defs)
qed

text \<open>
  The theorem at two strings of separators, one of them with spaces.
\<close>

theorem tokenize_specification_witness:
  "set (lower_latin_cyrillic (ascii ''(;) !'')) \<subseteq> insert 32 (set separators)
   \<and> tokenize lower_latin_cyrillic (ascii ''(;) !'') = []
   \<and> set (ascii ''(;)'') \<subseteq> set separators
   \<and> tokenize lower_latin_cyrillic (ascii ''(;)'') = []
   \<and> tokenize lower_latin_cyrillic (ascii ''a,b;c'') = [ascii ''a'', ascii ''b'', ascii ''c'']"
proof -
  have a: "set (lower_latin_cyrillic (ascii ''(;) !'')) \<subseteq> insert 32 (set separators)"
    by (simp add: lower_latin_cyrillic_def lower_cp_def ascii_def separators_def)
  have b: "set (ascii ''(;)'') \<subseteq> set separators"
    by (simp add: ascii_def separators_def)
  have c: "tokenize lower_latin_cyrillic (ascii ''a,b;c'') = [ascii ''a'', ascii ''b'', ascii ''c'']"
    by (simp add: eval_defs)
  have d: "tokenize lower_latin_cyrillic (ascii ''(;) !'') = []"
    by (rule tokenize_specification [of lower_latin_cyrillic "ascii ''(;) !''",
          THEN conjunct2, THEN conjunct2, THEN conjunct2, THEN conjunct2, THEN conjunct2,
          THEN conjunct1, THEN mp, OF a])
  have e: "tokenize lower_latin_cyrillic (ascii ''(;)'') = []"
    by (rule tokenize_specification [of lower_latin_cyrillic "ascii ''(;)''",
          THEN conjunct2, THEN conjunct2, THEN conjunct2, THEN conjunct2, THEN conjunct2,
          THEN conjunct2, THEN conjunct2, THEN conjunct1, THEN mp, OF b])
  from a b c d e show ?thesis by (intro conjI)
qed

text \<open>
  Claim C7 as stated fails for the curly quotes: they stay in the token, while the
  guillemets are replaced.
\<close>

theorem tokenize_specification_counterexample:
  "tokenize lower_latin_cyrillic [8220, 104, 105, 8221] = [[8220, 104, 105, 8221]]
   \<and> tokenize lower_latin_cyrillic [8216, 104, 105, 8217] = [[8216, 104, 105, 8217]]
   \<and> tokenize lower_latin_cyrillic [171, 104, 105, 187] = [[104, 105]]"
  by (simp add: eval_defs)

text \<open>
  Claim C9. Joining the tokens of \<open>tokenize s\<close> with single spaces and tokenizing again
  gives \<open>tokenize s\<close>. The one fact used about the library's lowercase function is that
  lowercased text stays as it is: a string made of code points of \<open>lower s\<close> and of
  spaces is its own lowercase.
\<close>

theorem tokenize_idempotent:
  assumes stable: "\<And>t. set t \<subseteq> insert 32 (set (lower s)) \<Longrightarrow> lower t = t"
  shows "tokenize lower (join [32] (tokenize lower s)) = tokenize lower s"
proof (cases "tokenize lower s = []")
  case True
  have "lower [] = []" using stable [of "[]"] by simp
  then have "tokenize lower [] = []" by (simp add: tokenize_map)
  with True show ?thesis by simp
next
  case False
  let ?ws = "tokenize lower s"
  have "set (join [32] ?ws) \<subseteq> insert 32 (set (lower s))"
    using set_join [of "[32]" ?ws] token_props(4) [of _ lower s] by auto
  then have "lower (join [32] ?ws) = join [32] ?ws" by (rule stable)
  then show ?thesis
    using False token_props [of _ lower s] by (intro tokenize_fixed) auto
qed

text \<open>
  The theorem at \<open>Hello, World!\<close> with the Latin and Cyrillic lowercase mapping.
\<close>

theorem tokenize_idempotent_witness:
  "tokenize lower_latin_cyrillic (join [32] (tokenize lower_latin_cyrillic (ascii ''Hello, World!'')))
     = [ascii ''hello'', ascii ''world'']"
proof -
  have "tokenize lower_latin_cyrillic (ascii ''Hello, World!'') = [ascii ''hello'', ascii ''world'']"
    by (simp add: tokenize_def lower_latin_cyrillic_def lower_cp_def ascii_def separators_def replace_char_def)
  then show ?thesis
    using tokenize_idempotent [of lower_latin_cyrillic "ascii ''Hello, World!''", OF lower_latin_cyrillic_stable]
    by simp
qed

section \<open>Document loading\<close>

lemma make_document_missing:
  "first_missing d = Some k \<Longrightarrow> make_document d = Inl (KeyError k)"
  by (auto simp: first_missing_def make_document_def subscript_def split: if_splits option.splits)

lemma make_document_complete:
  "first_missing d = None \<Longrightarrow> \<exists>document. make_document d = Inr document \<and> loaded d document"
  by (auto simp: first_missing_def make_document_def subscript_def loaded_def split: if_splits option.splits)

lemma load_loop_ok:
  "List.map_filter first_missing raw = [] \<Longrightarrow>
   \<exists>new. load_loop raw docs = Inr (docs @ new) \<and> list_all2 loaded raw new"
proof (induction raw arbitrary: docs)
  case Nil
  then show ?case by simp
next
  case (Cons d raw)
  from Cons.prems have fm: "first_missing d = None" and rest: "List.map_filter first_missing raw = []"
    by (auto simp: List.map_filter_simps split: option.splits)
  from make_document_complete [OF fm] obtain document
    where md: "make_document d = Inr document" and ld: "loaded d document" by blast
  from Cons.IH [OF rest, of "docs @ [document]"] obtain new
    where "load_loop raw (docs @ [document]) = Inr ((docs @ [document]) @ new)" "list_all2 loaded raw new"
    by blast
  with md ld show ?case by (intro exI [of _ "document # new"]) simp
qed

lemma load_loop_error:
  "List.map_filter first_missing raw = k # ks \<Longrightarrow> load_loop raw docs = Inl (KeyError k)"
proof (induction raw arbitrary: docs)
  case Nil
  then show ?case by (simp add: List.map_filter_simps)
next
  case (Cons d raw)
  show ?case
  proof (cases "first_missing d")
    case None
    with Cons.prems have "List.map_filter first_missing raw = k # ks"
      by (simp add: List.map_filter_simps)
    moreover from make_document_complete [OF None] obtain document
      where "make_document d = Inr document" by blast
    ultimately show ?thesis using Cons.IH by simp
  next
    case (Some k')
    with Cons.prems have "k' = k" by (simp add: List.map_filter_simps)
    with Some show ?thesis by (simp add: make_document_missing)
  qed
qed

text \<open>
  Claim C8, as the code has it. When every record has its five required fields the load
  succeeds, each document carrying its record's fields and the time tag any where the record
  has none. Otherwise the load fails with the \<open>KeyError\<close> of the first missing required
  field (in the order id, title, content, location, category) of the first malformed record;
  the error names the field only, not the record.
\<close>

theorem load_documents_behaviour:
  "(List.map_filter first_missing raw = [] \<longrightarrow>
      (\<exists>docs. load_documents raw = Inr docs \<and> list_all2 loaded raw docs))
   \<and> (List.map_filter first_missing raw = k # ks \<longrightarrow> load_documents raw = Inl (KeyError k))"
  using load_loop_ok [of raw "[]"] load_loop_error [of raw k ks "[]"]
  by (auto simp: load_documents_def)

text \<open>
  The theorem at a record without a time tag, and at a list whose second record lacks its
  title and its category.
\<close>

theorem load_documents_behaviour_witness:
  "List.map_filter first_missing [raw_ok] = []
   \<and> load_documents [raw_ok] =
       Inr [\<lparr>doc_id = 1, title = ascii ''Tea'', content = ascii ''shop'', location = ascii ''Lviv'',
             category = ascii ''food'', time_tag = ascii ''any''\<rparr>]
   \<and> List.map_filter first_missing [raw_ok, raw_no_title] = [''title'']
   \<and> load_documents [raw_ok, raw_no_title] = Inl (KeyError ''title'')"
proof -
  have a: "List.map_filter first_missing [raw_ok] = []"
    by (simp add: List.map_filter_simps first_missing_def raw_ok_def)
  have b: "List.map_filter first_missing [raw_ok, raw_no_title] = [''title'']"
    by (simp add: List.map_filter_simps first_missing_def raw_ok_def raw_no_title_def)
  have c: "load_documents [raw_ok] =
       Inr [\<lparr>doc_id = 1, title = ascii ''Tea'', content = ascii ''shop'', location = ascii ''Lviv'',
             category = ascii ''food'', time_tag = ascii ''any''\<rparr>]"
    by (simp add: load_documents_def make_document_def subscript_def raw_ok_def)
  show ?thesis
    using a b c load_documents_behaviour [of "[raw_ok]"]
      load_documents_behaviour [of "[raw_ok, raw_no_title]" "''title''" "[]"]
    by simp
qed

text \<open>
  Claim C8 as stated fails for the record's index: the malformed record gives the same
  error as the first and as the second record of the list.
\<close>

theorem load_documents_behaviour_counterexample:
  "load_documents [raw_no_title] = Inl (KeyError ''title'')
   \<and> load_documents [raw_ok, raw_no_title] = Inl (KeyError ''title'')"
  by (simp add: load_documents_def make_document_def subscript_def raw_ok_def raw_no_title_def)

section \<open>The base scorer\<close>

lemma score_loop_count:
  "score_loop txt qts score = score + of_nat (length (filter (\<lambda>qt. sublist qt txt) qts))"
  by (induction qts arbitrary: score) auto

lemma search_loop_filter:
  "search_loop lower (tokenize lower query) documents results =
     results @ map (\<lambda>d. \<lparr>doc = d, base_score = of_nat (match_count lower query d)\<rparr>)
                 (filter (\<lambda>d. 0 < match_count lower query d) documents)"
  by (induction documents arbitrary: results)
     (simp_all add: score_loop_count match_count_def ascii_def Let_def)

lemma search_sorted_filter:
  "search lower documents query =
     sort_desc base_score
       (map (\<lambda>d. \<lparr>doc = d, base_score = of_nat (match_count lower query d)\<rparr>)
          (filter (\<lambda>d. 0 < match_count lower query d) documents))"
  by (simp add: search_def search_loop_filter)

lemma sort_desc_mset: "mset (sort_desc key xs) = mset xs"
  by (simp add: sort_desc_def)

lemma sort_desc_set: "set (sort_desc key xs) = set xs"
  by (simp add: sort_desc_def)



text \<open>
  Claim C4. The results of \<open>search\<close> are, up to order, the documents whose count of
  matching query tokens is positive, each with that count as its base score, where the count
  is the number of query tokens, duplicates counted, that are substrings of the lowercased
  title, space, content. A document with count 0 is not among them, and a query with no
  token gives the empty list.
\<close>

theorem base_score_counts_matches:
  "mset (search lower documents query) =
     mset (map (\<lambda>d. \<lparr>doc = d, base_score = of_nat (match_count lower query d)\<rparr>)
            (filter (\<lambda>d. 0 < match_count lower query d) documents))
   \<and> (r \<in> set (search lower documents query) \<longrightarrow>
        doc r \<in> set documents \<and> base_score r = of_nat (match_count lower query (doc r))
        \<and> 0 < match_count lower query (doc r))
   \<and> (d \<in> set documents \<longrightarrow> match_count lower query d = 0 \<longrightarrow>
        d \<notin> doc ` set (search lower documents query))
   \<and> (tokenize lower query = [] \<longrightarrow> search lower documents query = [])"
proof (intro conjI impI)
  show "mset (search lower documents query) =
     mset (map (\<lambda>d. \<lparr>doc = d, base_score = of_nat (match_count lower query d)\<rparr>)
            (filter (\<lambda>d. 0 < match_count lower query d) documents))"
    by (simp only: search_sorted_filter sort_desc_mset)
  have mem: "set (search lower documents query) =
      (\<lambda>d. \<lparr>doc = d, base_score = of_nat (match_count lower query d)\<rparr>)
        ` {d \<in> set documents. 0 < match_count lower query d}"
    by (simp add: search_sorted_filter sort_desc_set)
  show "doc r \<in> set documents" "base_score r = of_nat (match_count lower query (doc r))"
       "0 < match_count lower query (doc r)"
    if "r \<in> set (search lower documents query)"
    using that unfolding mem by auto
  show "d \<notin> doc ` set (search lower documents query)"
    if "d \<in> set documents" "match_count lower query d = 0"
    using that unfolding mem by auto
  show "search lower documents query = []" if "tokenize lower query = []"
    using that by (simp add: search_sorted_filter match_count_def sort_desc_def)
qed

lemma example_search_run:
  "search lower_latin_cyrillic [example_doc, morning_doc] kw_kafe = [\<lparr>doc = example_doc, base_score = 1.0\<rparr>]"
  by (simp add: eval_defs example_doc_def morning_doc_def)

text \<open>
  The theorem at a two-document corpus with one matching document, and at a query of
  separators only.
\<close>

theorem base_score_counts_matches_witness:
  "\<lparr>doc = example_doc, base_score = 1.0\<rparr> \<in> set (search lower_latin_cyrillic [example_doc, morning_doc] kw_kafe)
   \<and> match_count lower_latin_cyrillic kw_kafe example_doc = 1
   \<and> morning_doc \<in> set [example_doc, morning_doc]
   \<and> match_count lower_latin_cyrillic kw_kafe morning_doc = 0
   \<and> morning_doc \<notin> doc ` set (search lower_latin_cyrillic [example_doc, morning_doc] kw_kafe)
   \<and> tokenize lower_latin_cyrillic (ascii '' , '') = []
   \<and> search lower_latin_cyrillic [example_doc, morning_doc] (ascii '' , '') = []"
proof -
  have tok: "tokenize lower_latin_cyrillic (ascii '' , '') = []"
    by (simp add: eval_defs)
  have m0: "match_count lower_latin_cyrillic kw_kafe morning_doc = 0"
    by (simp add: match_count_def eval_defs morning_doc_def)
  have m1: "match_count lower_latin_cyrillic kw_kafe example_doc = 1"
    by (simp add: match_count_def eval_defs example_doc_def)
  show ?thesis
    using base_score_counts_matches [of lower_latin_cyrillic "[example_doc, morning_doc]" kw_kafe
        "\<lparr>doc = example_doc, base_score = 1.0\<rparr>" morning_doc]
      base_score_counts_matches [of lower_latin_cyrillic "[example_doc, morning_doc]" "ascii '' , ''"]
    by (simp add: tok m0 m1 example_search_run)
qed

section \<open>The context re-ranker\<close>

lemma fold_append_map: "fold (\<lambda>item acc. acc @ [f item]) xs acc0 = acc0 @ map f xs"
  by (induction xs arbitrary: acc0) auto

lemma search_with_context_sorted_map:
  "search_with_context lower documents query context =
     sort_desc final_score
       (map (adapt lower context (combine_prefs (build_history_preferences context) (preferences context)))
          (search lower documents query))"
  by (simp add: search_with_context_def Let_def fold_append_map sort_desc_def)

lemma adapt_fields:
  "doc (adapt lower context prefs item) = doc item"
  "base_score (adapt lower context prefs item) = base_score item"
  "final_score (adapt lower context prefs item) =
     time_step (doc item) context (location_step lower (doc item) context (base_score item))
       * dict_get prefs (category (doc item)) 1"
  "category_weight (context_info (adapt lower context prefs item)) = dict_get prefs (category (doc item)) 1"
  "matched_location (context_info (adapt lower context prefs item)) =
     (lower (location (doc item)) = lower (user_location context))"
  "info_time_segment (context_info (adapt lower context prefs item)) = time_segment context"
  "doc_time_tag (context_info (adapt lower context prefs item)) = time_tag (doc item)"
  by (simp_all add: adapt_def Let_def)

lemma time_step_factor:
  "time_step d context score =
     score * (if time_tag d = time_segment context then 1.3
              else if time_tag d = ascii ''any'' then 1.0 else 0.9)"
  by (simp add: time_step_def)

lemma location_step_factor:
  "location_step lower d context score =
     score * (if lower (location d) = lower (user_location context) then 1.5 else 1.0)"
  by (simp add: location_step_def)

lemma result_in_search_with_context:
  assumes "r \<in> set (search_with_context lower documents query context)"
  obtains item where "item \<in> set (search lower documents query)"
    and "r = adapt lower context (combine_prefs (build_history_preferences context) (preferences context)) item"
  using assms by (auto simp: search_with_context_sorted_map sort_desc_set)

subsection \<open>History and explicit preferences\<close>

lemma category_names_distinct:
  "food \<noteq> news" "food \<noteq> education" "food \<noteq> sport" "news \<noteq> education" "news \<noteq> sport"
  "education \<noteq> sport" "news \<noteq> food" "education \<noteq> food" "sport \<noteq> food" "education \<noteq> news"
  "sport \<noteq> news" "sport \<noteq> education"
  by (simp_all add: food_def news_def education_def sport_def ascii_def)

lemma dict_incr_prefs4:
  "dict_incr food (prefs4 a b c d) = prefs4 (a + 1) b c d"
  "dict_incr news (prefs4 a b c d) = prefs4 a (b + 1) c d"
  "dict_incr education (prefs4 a b c d) = prefs4 a b (c + 1) d"
  "dict_incr sport (prefs4 a b c d) = prefs4 a b c (d + 1)"
  by (simp_all add: prefs4_def dict_incr_def dict_get_def category_names_distinct)

lemma cond_incr_prefs4:
  "(if P then dict_incr food (prefs4 a b c d) else prefs4 a b c d) = prefs4 (a + (if P then 1 else 0)) b c d"
  "(if P then dict_incr news (prefs4 a b c d) else prefs4 a b c d) = prefs4 a (b + (if P then 1 else 0)) c d"
  "(if P then dict_incr education (prefs4 a b c d) else prefs4 a b c d) = prefs4 a b (c + (if P then 1 else 0)) d"
  "(if P then dict_incr sport (prefs4 a b c d) else prefs4 a b c d) = prefs4 a b c (d + (if P then 1 else 0))"
  by (simp_all add: dict_incr_prefs4)

lemma hit_unfold:
  "hit food q = (if sublist kw_kafe q \<or> sublist kw_restoran q \<or> sublist kw_yizha q then 1 else 0)"
  "hit news q = (if sublist kw_novyny q \<or> sublist kw_news q then 1 else 0)"
  "hit education q = (if sublist kw_kurs q \<or> sublist kw_navchannya q \<or> sublist kw_python q then 1 else 0)"
  "hit sport q = (if sublist kw_sport q \<or> sublist kw_fitnes q \<or> sublist kw_baseyn q then 1 else 0)"
  by (simp_all add: hit_def triggers_def category_names_distinct)

lemma history_step_prefs4:
  "history_step q (prefs4 a b c d) =
     prefs4 (a + hit food q) (b + hit news q) (c + hit education q) (d + hit sport q)"
  unfolding history_step_def Let_def hit_unfold cond_incr_prefs4 ..

lemma accumulator_Cons:
  "of_nat (accumulator cat (q # history)) = hit cat q + (of_nat (accumulator cat history) :: rat)"
  by (simp add: accumulator_def hit_def)

lemma fold_history_step:
  "fold history_step history (prefs4 a b c d) =
     prefs4 (a + of_nat (accumulator food history)) (b + of_nat (accumulator news history))
            (c + of_nat (accumulator education history)) (d + of_nat (accumulator sport history))"
proof (induction history arbitrary: a b c d)
  case Nil
  then show ?case by (simp add: accumulator_def)
next
  case (Cons q history)
  then show ?case by (simp add: history_step_prefs4 accumulator_Cons add.assoc)
qed

lemma weight_step_prefs4:
  "weight_step (food, v) (prefs4 a b c d) = prefs4 (if v > 0 then 1 + v * 0.5 else 1) b c d"
  "weight_step (news, v) (prefs4 a b c d) = prefs4 a (if v > 0 then 1 + v * 0.5 else 1) c d"
  "weight_step (education, v) (prefs4 a b c d) = prefs4 a b (if v > 0 then 1 + v * 0.5 else 1) d"
  "weight_step (sport, v) (prefs4 a b c d) = prefs4 a b c (if v > 0 then 1 + v * 0.5 else 1)"
  by (simp_all add: prefs4_def weight_step_def category_names_distinct)

lemma fold_weight_step:
  "fold weight_step (prefs4 a b c d) (prefs4 a' b' c' d') =
     prefs4 (if a > 0 then 1 + a * 0.5 else 1) (if b > 0 then 1 + b * 0.5 else 1)
            (if c > 0 then 1 + c * 0.5 else 1) (if d > 0 then 1 + d * 0.5 else 1)"
proof -
  have "fold weight_step (prefs4 a b c d) (prefs4 a' b' c' d') =
      weight_step (sport, d) (weight_step (education, c) (weight_step (news, b)
        (weight_step (food, a) (prefs4 a' b' c' d'))))"
    by (simp add: prefs4_def [of a b c d])
  then show ?thesis by (simp only: weight_step_prefs4)
qed

lemma build_history_preferences_eq:
  "build_history_preferences context =
     [(food, history_weight food (query_history context)),
      (news, history_weight news (query_history context)),
      (education, history_weight education (query_history context)),
      (sport, history_weight sport (query_history context))]"
proof -
  have "map (\<lambda>cat. (cat, 0.0)) [food, news, education, sport] = prefs4 0 0 0 0"
    by (simp add: prefs4_def)
  then have "build_history_preferences context =
      fold weight_step (fold history_step (query_history context) (prefs4 0 0 0 0))
        (fold history_step (query_history context) (prefs4 0 0 0 0))"
    by (simp add: build_history_preferences_def Let_def)
  then show ?thesis
    by (simp add: fold_history_step fold_weight_step history_weight_def) (simp add: prefs4_def)
qed

lemma dict_get_update:
  "dict_get (AList.update k v d) c dflt = (if c = k then v else dict_get d c dflt)"
  by (simp add: dict_get_def update_conv')

lemma combine_prefs_lookup:
  "distinct (map fst prefs) \<Longrightarrow>
   map_of (combine_prefs history_prefs prefs) cat =
     (case map_of prefs cat of
        None \<Rightarrow> map_of history_prefs cat
      | Some w \<Rightarrow> Some (dict_get history_prefs cat 1.0 * w))"
  unfolding combine_prefs_def
proof (induction prefs arbitrary: history_prefs)
  case Nil
  then show ?case by simp
next
  case (Cons kv prefs)
  obtain k w where kv: "kv = (k, w)" by (cases kv)
  from Cons.prems kv have notin: "map_of prefs k = None" and dist: "distinct (map fst prefs)"
    by (auto simp: map_of_eq_None_iff)
  show ?case
    using Cons.IH [OF dist, of "merge_step kv history_prefs"] notin
    by (auto simp: kv merge_step_def update_conv' dict_get_update split: option.splits)
qed

subsection \<open>Scores and order\<close>



text \<open>
  Claim C2, as the code has it. The time block multiplies the score by 1.3 when the document's
  time tag equals the context's time segment, else by 1.0 when the tag is any, else by 0.9,
  tested in this order. So a document tagged any gets 1.0 only when the context's segment is
  not any; when it is any, the tags are equal and the document gets 1.3. Every result of
  \<open>search_with_context\<close> carries this multiplier in its final score.
\<close>

theorem time_multiplier:
  "time_step d context score =
     score * (if time_tag d = time_segment context then 1.3
              else if time_tag d = ascii ''any'' then 1.0 else 0.9)
   \<and> (time_tag d = ascii ''any'' \<longrightarrow>
        time_step d context score =
          score * (if time_segment context = ascii ''any'' then 1.3 else 1.0))
   \<and> (r \<in> set (search_with_context lower documents query context) \<longrightarrow>
        final_score r =
          time_step (doc r) context (location_step lower (doc r) context (base_score r))
            * category_weight (context_info r))"
proof (intro conjI impI)
  show "time_step d context score =
     score * (if time_tag d = time_segment context then 1.3
              else if time_tag d = ascii ''any'' then 1.0 else 0.9)"
    by (rule time_step_factor)
  show "time_step d context score =
          score * (if time_segment context = ascii ''any'' then 1.3 else 1.0)"
    if "time_tag d = ascii ''any''"
    using that by (auto simp: time_step_factor)
  show "final_score r =
          time_step (doc r) context (location_step lower (doc r) context (base_score r))
            * category_weight (context_info r)"
    if "r \<in> set (search_with_context lower documents query context)"
    using that by (elim result_in_search_with_context) (simp add: adapt_fields)
qed

lemma anytime_run:
  "search_with_context lower_latin_cyrillic [anytime_doc] (ascii ''tea'') anytime_context =
     [\<lparr>doc = anytime_doc, base_score = 1.0, final_score = 1.3,
       context_info = \<lparr>matched_location = False, info_time_segment = ascii ''any'',
                       doc_time_tag = ascii ''any'', category_weight = 1.0\<rparr>\<rparr>]"
  by (simp add: eval_defs anytime_doc_def anytime_context_def)

text \<open>
  The theorem at a document tagged any, under a context whose segment is any.
\<close>

theorem time_multiplier_witness:
  "time_tag anytime_doc = ascii ''any''
   \<and> time_step anytime_doc anytime_context 1.0 = 1.3
   \<and> \<lparr>doc = anytime_doc, base_score = 1.0, final_score = 1.3,
       context_info = \<lparr>matched_location = False, info_time_segment = ascii ''any'',
                       doc_time_tag = ascii ''any'', category_weight = 1.0\<rparr>\<rparr>
        \<in> set (search_with_context lower_latin_cyrillic [anytime_doc] (ascii ''tea'') anytime_context)
   \<and> (1.3 :: rat) = time_step anytime_doc anytime_context
         (location_step lower_latin_cyrillic anytime_doc anytime_context 1.0) * 1.0"
  using time_multiplier [of anytime_doc anytime_context "1.0"
      "\<lparr>doc = anytime_doc, base_score = 1.0, final_score = 1.3,
        context_info = \<lparr>matched_location = False, info_time_segment = ascii ''any'',
                        doc_time_tag = ascii ''any'', category_weight = 1.0\<rparr>\<rparr>"
      lower_latin_cyrillic "[anytime_doc]" "ascii ''tea''"]
  by (simp add: anytime_run) (simp add: anytime_doc_def anytime_context_def)

text \<open>
  Claim C2 as stated fails in its last part: a document tagged any, under a context whose
  segment is any, is multiplied by 1.3, not by 1.0.
\<close>

theorem time_multiplier_counterexample:
  "time_tag anytime_doc = ascii ''any''
   \<and> search_with_context lower_latin_cyrillic [anytime_doc] (ascii ''tea'') anytime_context =
     [\<lparr>doc = anytime_doc, base_score = 1.0, final_score = 1.3,
       context_info = \<lparr>matched_location = False, info_time_segment = ascii ''any'',
                       doc_time_tag = ascii ''any'', category_weight = 1.0\<rparr>\<rparr>]
   \<and> time_step anytime_doc anytime_context 1.0 \<noteq> 1.0"
  by (simp add: anytime_run) (simp add: anytime_doc_def anytime_context_def time_step_def)

text \<open>
  Claim C3, as the code has it. A context whose time segment is none of morning, evening, any
  is not rejected: every result of the base scorer is returned, re-scored. The time block
  still runs its three tests: a document tagged any is multiplied by 1.0, a document whose tag
  is that same segment by 1.3, and every other document, so every document tagged morning or
  evening, by 0.9.
\<close>

theorem invalid_time_segment:
  assumes "time_segment context \<notin> {ascii ''morning'', ascii ''evening'', ascii ''any''}"
  shows "mset (map (\<lambda>r. \<lparr>doc = doc r, base_score = base_score r\<rparr>)
                 (search_with_context lower documents query context))
           = mset (search lower documents query)
         \<and> (r \<in> set (search_with_context lower documents query context) \<longrightarrow>
              final_score r =
                base_score r
                  * (if matched_location (context_info r) then 1.5 else 1.0)
                  * (if time_tag (doc r) = ascii ''any'' then 1.0
                     else if time_tag (doc r) = time_segment context then 1.3 else 0.9)
                  * category_weight (context_info r))
         \<and> (r \<in> set (search_with_context lower documents query context) \<longrightarrow>
              time_tag (doc r) \<in> {ascii ''morning'', ascii ''evening''} \<longrightarrow>
              final_score r =
                base_score r * (if matched_location (context_info r) then 1.5 else 1.0) * 0.9
                  * category_weight (context_info r))"
proof (intro conjI impI)
  let ?prefs = "combine_prefs (build_history_preferences context) (preferences context)"
  have "mset (map (\<lambda>r. \<lparr>doc = doc r, base_score = base_score r\<rparr>)
                 (search_with_context lower documents query context))
      = mset (map (\<lambda>r. \<lparr>doc = doc r, base_score = base_score r\<rparr>)
                 (map (adapt lower context ?prefs) (search lower documents query)))"
    unfolding search_with_context_sorted_map
    by (simp only: mset_map sort_desc_mset)
  also have "map (\<lambda>r. \<lparr>doc = doc r, base_score = base_score r\<rparr>)
                 (map (adapt lower context ?prefs) (search lower documents query))
      = search lower documents query"
    by (simp add: adapt_fields o_def, intro map_idI, simp)
  finally show "mset (map (\<lambda>r. \<lparr>doc = doc r, base_score = base_score r\<rparr>)
                 (search_with_context lower documents query context))
           = mset (search lower documents query)" .
next
  assume r: "r \<in> set (search_with_context lower documents query context)"
  from assms have neq: "time_segment context \<noteq> ascii ''any''" by auto
  from r show main: "final_score r =
                base_score r
                  * (if matched_location (context_info r) then 1.5 else 1.0)
                  * (if time_tag (doc r) = ascii ''any'' then 1.0
                     else if time_tag (doc r) = time_segment context then 1.3 else 0.9)
                  * category_weight (context_info r)"
    using neq
    by (elim result_in_search_with_context)
       (auto simp: adapt_fields time_step_factor location_step_factor)
  assume "time_tag (doc r) \<in> {ascii ''morning'', ascii ''evening''}"
  with assms have "time_tag (doc r) \<noteq> ascii ''any''" "time_tag (doc r) \<noteq> time_segment context"
    by (auto simp: ascii_def)
  with main show "final_score r =
                base_score r * (if matched_location (context_info r) then 1.5 else 1.0) * 0.9
                  * category_weight (context_info r)"
    by simp
qed

lemma night_run:
  "search_with_context lower_latin_cyrillic [morning_doc] (ascii ''bread'') night_context =
     [\<lparr>doc = morning_doc, base_score = 1.0, final_score = 0.9,
       context_info = \<lparr>matched_location = False, info_time_segment = ascii ''night'',
                       doc_time_tag = ascii ''morning'', category_weight = 1.0\<rparr>\<rparr>]"
  by (simp add: eval_defs morning_doc_def night_context_def)

lemma night_not_valid:
  "time_segment night_context \<notin> {ascii ''morning'', ascii ''evening'', ascii ''any''}"
  by (simp add: night_context_def ascii_def)

text \<open>
  The theorem at a document tagged morning under the segment \<open>night\<close>.
\<close>

theorem invalid_time_segment_witness:
  "time_segment night_context \<notin> {ascii ''morning'', ascii ''evening'', ascii ''any''}
   \<and> \<lparr>doc = morning_doc, base_score = 1.0, final_score = 0.9,
       context_info = \<lparr>matched_location = False, info_time_segment = ascii ''night'',
                       doc_time_tag = ascii ''morning'', category_weight = 1.0\<rparr>\<rparr>
        \<in> set (search_with_context lower_latin_cyrillic [morning_doc] (ascii ''bread'') night_context)
   \<and> time_tag morning_doc \<in> {ascii ''morning'', ascii ''evening''}
   \<and> mset (map (\<lambda>r. \<lparr>doc = doc r, base_score = base_score r\<rparr>)
                 (search_with_context lower_latin_cyrillic [morning_doc] (ascii ''bread'') night_context))
           = mset (search lower_latin_cyrillic [morning_doc] (ascii ''bread''))
   \<and> (0.9 :: rat) = 1.0 * 1.0 * 0.9 * 1.0"
  using invalid_time_segment [OF night_not_valid,
      of lower_latin_cyrillic "[morning_doc]" "ascii ''bread''"
      "\<lparr>doc = morning_doc, base_score = 1.0, final_score = 0.9,
        context_info = \<lparr>matched_location = False, info_time_segment = ascii ''night'',
                        doc_time_tag = ascii ''morning'', category_weight = 1.0\<rparr>\<rparr>"]
  by (simp add: night_run) (simp add: morning_doc_def night_context_def ascii_def)

text \<open>
  Claim C3 as stated fails: under the segment \<open>night\<close> a document tagged morning is
  multiplied by 0.9, so its final score 0.9 is not base score * location factor * category
  weight = 1.0.
\<close>

theorem invalid_time_segment_counterexample:
  "time_segment night_context \<notin> {ascii ''morning'', ascii ''evening'', ascii ''any''}
   \<and> search_with_context lower_latin_cyrillic [morning_doc] (ascii ''bread'') night_context =
     [\<lparr>doc = morning_doc, base_score = 1.0, final_score = 0.9,
       context_info = \<lparr>matched_location = False, info_time_segment = ascii ''night'',
                       doc_time_tag = ascii ''morning'', category_weight = 1.0\<rparr>\<rparr>]
   \<and> (0.9 :: rat) \<noteq> 1.0 * 1.0 * 1.0"
  using night_not_valid by (simp add: night_run)



text \<open>
  Claim C6. \<open>build_history_preferences\<close> gives each of food, news, education, sport the
  weight 1.0 + accumulator * 0.5 when its accumulator is positive and 1.0 otherwise, the
  accumulator being the number of history queries that contain one of the category's trigger
  substrings. Merging the explicit preferences multiplies each pair's weight into the
  history weight of its category, 1.0 standing in for a category outside the four, and
  leaves the other categories as they were; the weight applied to a result is the merged
  weight of its document's category, 1.0 when there is none.
\<close>

theorem preference_weights:
  "build_history_preferences context =
     [(food, history_weight food (query_history context)),
      (news, history_weight news (query_history context)),
      (education, history_weight education (query_history context)),
      (sport, history_weight sport (query_history context))]
   \<and> (distinct (map fst (preferences context)) \<longrightarrow>
        map_of (combine_prefs (build_history_preferences context) (preferences context)) cat =
          (case map_of (preferences context) cat of
             None \<Rightarrow> map_of (build_history_preferences context) cat
           | Some w \<Rightarrow> Some (dict_get (build_history_preferences context) cat 1.0 * w)))
   \<and> (r \<in> set (search_with_context lower documents query context) \<longrightarrow>
        category_weight (context_info r) =
          dict_get (combine_prefs (build_history_preferences context) (preferences context))
            (category (doc r)) 1.0)"
proof (intro conjI impI)
  show "build_history_preferences context =
     [(food, history_weight food (query_history context)),
      (news, history_weight news (query_history context)),
      (education, history_weight education (query_history context)),
      (sport, history_weight sport (query_history context))]"
    by (rule build_history_preferences_eq)
  show "map_of (combine_prefs (build_history_preferences context) (preferences context)) cat =
          (case map_of (preferences context) cat of
             None \<Rightarrow> map_of (build_history_preferences context) cat
           | Some w \<Rightarrow> Some (dict_get (build_history_preferences context) cat 1.0 * w))"
    if "distinct (map fst (preferences context))"
    using that by (rule combine_prefs_lookup)
  show "category_weight (context_info r) =
          dict_get (combine_prefs (build_history_preferences context) (preferences context))
            (category (doc r)) 1.0"
    if "r \<in> set (search_with_context lower documents query context)"
    using that by (elim result_in_search_with_context) (simp add: adapt_fields)
qed

lemma history_run:
  "search_with_context lower_latin_cyrillic [example_doc] kw_kafe history_context =
     [\<lparr>doc = example_doc, base_score = 1.0, final_score = 7.8,
       context_info = \<lparr>matched_location = True, info_time_segment = ascii ''any'',
                       doc_time_tag = ascii ''any'', category_weight = 4.0\<rparr>\<rparr>]"
  by (simp add: eval_defs example_doc_def history_context_def)

lemma history_accumulators:
  "accumulator food (query_history history_context) = 2"
  "accumulator news (query_history history_context) = 1"
  "accumulator education (query_history history_context) = 0"
  "accumulator sport (query_history history_context) = 0"
  by (simp_all add: accumulator_def triggers_def history_context_def eval_defs)

text \<open>
  The theorem at a history of two food queries and one news query, with explicit
  preferences for food (2.0) and for a fifth category: food 2.0 * 2.0 = 4.0, news 1.5.
\<close>

theorem preference_weights_witness:
  "distinct (map fst (preferences history_context))
   \<and> build_history_preferences history_context = [(food, 2.0), (news, 1.5), (education, 1.0), (sport, 1.0)]
   \<and> map_of (combine_prefs (build_history_preferences history_context) (preferences history_context)) food
        = Some 4.0
   \<and> map_of (combine_prefs (build_history_preferences history_context) (preferences history_context)) news
        = Some 1.5
   \<and> map_of (combine_prefs (build_history_preferences history_context) (preferences history_context))
        (ascii ''travel'') = Some 3.0
   \<and> \<lparr>doc = example_doc, base_score = 1.0, final_score = 7.8,
       context_info = \<lparr>matched_location = True, info_time_segment = ascii ''any'',
                       doc_time_tag = ascii ''any'', category_weight = 4.0\<rparr>\<rparr>
        \<in> set (search_with_context lower_latin_cyrillic [example_doc] kw_kafe history_context)
   \<and> dict_get (combine_prefs (build_history_preferences history_context) (preferences history_context))
        (category example_doc) 1.0 = 4.0"
proof -
  have dist: "distinct (map fst (preferences history_context))"
    by (simp add: history_context_def ascii_def)
  have prefs: "map_of (preferences history_context) food = Some 2.0"
    "map_of (preferences history_context) news = None"
    "map_of (preferences history_context) (ascii ''travel'') = Some 3.0"
    by (simp_all add: history_context_def ascii_def food_def news_def)
  have names: "ascii ''travel'' \<noteq> food" "ascii ''travel'' \<noteq> news"
    "ascii ''travel'' \<noteq> education" "ascii ''travel'' \<noteq> sport" "category example_doc = food"
    by (simp_all add: ascii_def food_def news_def education_def sport_def example_doc_def)
  note facts = preference_weights [of history_context _ _ lower_latin_cyrillic "[example_doc]" kw_kafe]
  have bhp: "build_history_preferences history_context =
      [(food, 2.0), (news, 1.5), (education, 1.0), (sport, 1.0)]"
    using facts [of food] by (simp add: history_weight_def history_accumulators)
  show ?thesis
    using dist facts [of food "\<lparr>doc = example_doc, base_score = 1.0, final_score = 7.8,
       context_info = \<lparr>matched_location = True, info_time_segment = ascii ''any'',
                       doc_time_tag = ascii ''any'', category_weight = 4.0\<rparr>\<rparr>"]
      facts [of news] facts [of "ascii ''travel''"]
    by (simp add: history_run prefs bhp names dict_get_def category_names_distinct)
qed

section \<open>The two searches on the store\<close>

lemma lookup_append:
  "lookup (xs @ ys) a = (if a < length xs then Some (xs ! a) else lookup ys (a - length xs))"
  by (auto simp: lookup_def nth_append)

lemma lookup_update:
  "lookup (xs[a := v]) b = (if b < length xs then (if a = b then Some v else Some (xs ! b)) else None)"
  by (auto simp: lookup_def)

lemma lookup_Some: "lookup xs a = Some v \<longleftrightarrow> a < length xs \<and> xs ! a = v"
  by (auto simp: lookup_def)

lemma those_map_Some: "those (map Some xs) = Some xs"
  by (induction xs) auto

lemma those_Cons_Some:
  "those (x # xs) = Some ys \<longleftrightarrow> (\<exists>y ys'. x = Some y \<and> those xs = Some ys' \<and> ys = y # ys')"
  by (cases x) auto

lemma those_eq_Some_map:
  "those (map f xs) = Some ys \<Longrightarrow> map f xs = map Some ys"
  by (induction xs arbitrary: ys) (auto split: option.splits)

lemma map_lookup_fresh:
  "map (lookup (xs @ ys)) [length xs ..< length xs + length ys] = map Some ys"
  by (rule nth_equalityI) (auto simp: lookup_def nth_append)

lemma upt_shift: "[n ..< Suc (n + k)] = n # [Suc n ..< Suc (n + k)]"
  by (simp add: upt_conv_Cons del: upt_Suc)

lemma list_append_effect:
  "lookup (ref_lists h) xs = Some items \<Longrightarrow>
   list_append xs x h = Some (h\<lparr>ref_lists := (ref_lists h)[xs := items @ [x]]\<rparr>)"
  by (simp add: list_append_def)

lemma search_loop_h_effect:
  "those (map (lookup (document_objs h)) refs) = Some docs \<Longrightarrow>
   lookup (ref_lists h) results = Some items \<Longrightarrow>
   search_loop_h lower query_tokens refs results h =
     Some (h\<lparr>ref_lists := (ref_lists h)
               [results := items @ [length (base_result_objs h) ..<
                    length (base_result_objs h) + length (hits lower query_tokens refs docs)]],
             base_result_objs := base_result_objs h @ hits lower query_tokens refs docs\<rparr>)"
proof (induction refs arbitrary: h items docs)
  case Nil
  then have "(ref_lists h)[results := items] = ref_lists h" by (auto simp: lookup_Some)
  then show ?case by (simp add: hits_def)
next
  case (Cons d refs)
  from Cons.prems(1) obtain document docs' where
    doc: "lookup (document_objs h) d = Some document" and
    rest: "those (map (lookup (document_objs h)) refs) = Some docs'" and
    docs: "docs = document # docs'"
    by (auto split: option.splits)
  let ?score = "score_of lower query_tokens document"
  from Cons.prems(2) have res: "results < length (ref_lists h)" "ref_lists h ! results = items"
    by (auto simp: lookup_Some)
  show ?case
  proof (cases "?score > 0")
    case False
    then have "hits lower query_tokens (d # refs) docs = hits lower query_tokens refs docs'"
      by (simp add: hits_def docs)
    with False doc show ?thesis
      using Cons.IH [OF rest Cons.prems(2)] by (simp add: score_of_def)
  next
    case True
    let ?n = "length (base_result_objs h)"
    let ?h1 = "h\<lparr>base_result_objs := base_result_objs h @ [(d, ?score)]\<rparr>"
    let ?h2 = "?h1\<lparr>ref_lists := (ref_lists ?h1)[results := items @ [?n]]\<rparr>"
    have hs: "hits lower query_tokens (d # refs) docs = (d, ?score) # hits lower query_tokens refs docs'"
      using True by (simp add: hits_def docs)
    have a: "those (map (lookup (document_objs ?h2)) refs) = Some docs'" using rest by simp
    have b: "lookup (ref_lists ?h2) results = Some (items @ [?n])" using res by (simp add: lookup_update)
    have step: "search_loop_h lower query_tokens (d # refs) results h =
        search_loop_h lower query_tokens refs results ?h2"
      using True doc Cons.prems(2)
      by (simp add: score_of_def new_base_result_def list_append_def)
    show ?thesis
      unfolding step Cons.IH [OF a b] hs
      by (simp add: upt_shift del: upt_Suc)
  qed
qed

lemma list_sort_effect:
  "lookup (ref_lists h) xs = Some items \<Longrightarrow> those (map key items) = Some keys \<Longrightarrow>
   list_sort xs key h =
     Some (h\<lparr>ref_lists := (ref_lists h)[xs := map snd (sort_desc fst (zip keys items))]\<rparr>)"
  by (simp add: list_sort_def)

lemma insort_key_map_cong:
  "(\<And>p. p \<in> set (x # ps) \<Longrightarrow> K p = k (G p)) \<Longrightarrow>
   map G (insort_key K x ps) = insort_key k (G x) (map G ps)"
  by (induction ps) auto

lemma sort_key_map_cong:
  "(\<And>p. p \<in> set ps \<Longrightarrow> K p = k (G p)) \<Longrightarrow> map G (sort_key K ps) = sort_key k (map G ps)"
proof (induction ps)
  case Nil
  then show ?case by simp
next
  case (Cons p ps)
  then have "map G (sort_key K ps) = sort_key k (map G ps)" by simp
  moreover have "map G (insort_key K p (sort_key K ps)) = insort_key k (G p) (map G (sort_key K ps))"
    using Cons.prems by (intro insort_key_map_cong) auto
  ultimately show ?case by simp
qed

text \<open>Sorting references by keys read from their objects sorts the objects they denote.\<close>

lemma sort_refs_by_key:
  assumes len: "length refs = length objs"
    and deref: "\<And>i. i < length refs \<Longrightarrow> g (refs ! i) = objs ! i"
  shows "map g (map snd (sort_desc fst (zip (map key objs) refs))) = sort_desc key objs"
proof -
  let ?ps = "zip (map key objs) refs"
  have ps: "\<And>p. p \<in> set ?ps \<Longrightarrow> - fst p = - key (g (snd p))"
    using len deref by (auto simp: set_zip)
  have "map (g \<circ> snd) (sort_key (\<lambda>p. - fst p) ?ps) = sort_key (\<lambda>x. - key x) (map (g \<circ> snd) ?ps)"
    using ps by (intro sort_key_map_cong) simp
  also have "map (g \<circ> snd) ?ps = map g refs" using len by (simp add: map_snd_zip flip: map_map)
  also have "map g refs = objs" using len deref by (intro nth_equalityI) auto
  finally show ?thesis by (simp add: sort_desc_def o_def)
qed

lemma those_map_Some_comp:
  "(\<And>x. x \<in> set xs \<Longrightarrow> f x = Some (g x)) \<Longrightarrow> those (map f xs) = Some (map g xs)"
  by (induction xs) auto

lemma length_hits:
  "length refs = length docs \<Longrightarrow>
   length (hits lower query_tokens refs docs) = length (hit_results lower query_tokens docs)"
proof (induction refs docs rule: list_induct2)
  case Nil
  then show ?case by (simp add: hits_def hit_results_def)
next
  case (Cons d refs document docs)
  then show ?case by (simp add: hits_def hit_results_def)
qed

lemma hits_nth:
  assumes "map (lookup store) refs = map Some docs" "i < length (hits lower query_tokens refs docs)"
  shows "\<exists>d. hits lower query_tokens refs docs ! i = (d, base_score (hit_results lower query_tokens docs ! i))
           \<and> lookup store d = Some (doc (hit_results lower query_tokens docs ! i))"
  using assms
proof (induction refs arbitrary: docs i)
  case Nil
  then show ?case by (simp add: hits_def)
next
  case (Cons d refs)
  then obtain document docs' where docs: "docs = document # docs'"
    and d: "lookup store d = Some document" and rest: "map (lookup store) refs = map Some docs'"
    by (cases docs) auto
  show ?case
  proof (cases "score_of lower query_tokens document > 0")
    case False
    then have "hits lower query_tokens (d # refs) docs = hits lower query_tokens refs docs'"
      "hit_results lower query_tokens docs = hit_results lower query_tokens docs'"
      by (simp_all add: hits_def hit_results_def docs)
    with Cons.IH [OF rest] Cons.prems(2) show ?thesis by simp
  next
    case True
    then have eqs: "hits lower query_tokens (d # refs) docs =
        (d, score_of lower query_tokens document) # hits lower query_tokens refs docs'"
      "hit_results lower query_tokens docs =
        \<lparr>doc = document, base_score = score_of lower query_tokens document\<rparr>
          # hit_results lower query_tokens docs'"
      by (simp_all add: hits_def hit_results_def docs)
    show ?thesis
    proof (cases i)
      case 0
      with eqs d show ?thesis by simp
    next
      case (Suc j)
      with Cons.prems(2) eqs have "j < length (hits lower query_tokens refs docs')" by simp
      from Cons.IH [OF rest this] Suc eqs show ?thesis by simp
    qed
  qed
qed

lemma hit_results_search:
  "sort_desc base_score (hit_results lower (tokenize lower query) docs) = search lower docs query"
proof -
  have "score_of lower (tokenize lower query) document = of_nat (match_count lower query document)"
    for document
    by (simp add: score_of_def score_loop_count match_count_def ascii_def)
  then show ?thesis by (simp add: search_sorted_filter hit_results_def)
qed

lemma search_h_effect:
  assumes eng: "lookup (engine_objs h) self = Some da"
    and lst: "lookup (ref_lists h) da = Some refs"
    and docs: "those (map (lookup (document_objs h)) refs) = Some docs"
  shows "search_h lower self query h =
     Some (length (ref_lists h),
           h\<lparr>ref_lists := ref_lists h @ [sorted_hits h (hits lower (tokenize lower query) refs docs)],
             base_result_objs := base_result_objs h @ hits lower (tokenize lower query) refs docs\<rparr>)"
proof -
  let ?qts = "tokenize lower query"
  let ?hs = "hits lower ?qts refs docs"
  let ?n = "length (base_result_objs h)"
  let ?r = "length (ref_lists h)"
  let ?h1 = "h\<lparr>ref_lists := ref_lists h @ [[]]\<rparr>"
  let ?h2 = "?h1\<lparr>ref_lists := (ref_lists ?h1)[?r := [] @ [?n ..< ?n + length ?hs]],
                base_result_objs := base_result_objs ?h1 @ ?hs\<rparr>"
  from lst have da: "da < ?r" by (simp add: lookup_Some)
  have l1: "lookup (ref_lists ?h1) da = Some refs" using lst da by (simp add: lookup_append lookup_Some)
  have d1: "those (map (lookup (document_objs ?h1)) refs) = Some docs" using docs by simp
  have r1: "lookup (ref_lists ?h1) ?r = Some []" by (simp add: lookup_append lookup_def)
  have loop: "search_loop_h lower ?qts refs ?r ?h1 = Some ?h2"
    using search_loop_h_effect [OF d1 r1, of lower ?qts] by simp
  have items: "lookup (ref_lists ?h2) ?r = Some [?n ..< ?n + length ?hs]"
    by (simp add: lookup_def)
  have "map (\<lambda>x. map_option snd (lookup (base_result_objs ?h2) x)) [?n ..< ?n + length ?hs]
      = map (map_option snd) (map (lookup (base_result_objs h @ ?hs)) [?n ..< ?n + length ?hs])"
    by simp
  also have "\<dots> = map Some (map snd ?hs)" unfolding map_lookup_fresh by simp
  finally have keys: "those (map (\<lambda>x. map_option snd (lookup (base_result_objs ?h2) x))
      [?n ..< ?n + length ?hs]) = Some (map snd ?hs)"
    by (simp only: those_map_Some)
  have sort: "list_sort ?r (\<lambda>x. map_option snd (lookup (base_result_objs ?h2) x)) ?h2 =
      Some (?h2\<lparr>ref_lists := (ref_lists ?h2)[?r := sorted_hits h ?hs]\<rparr>)"
    unfolding list_sort_effect [OF items keys] by (simp add: sorted_hits_def)
  show ?thesis
    unfolding search_h_def Let_def new_list_def
    using eng l1 loop sort by simp
qed

lemma read_sorted_hits:
  assumes docs: "those (map (lookup (document_objs h)) refs) = Some docs"
    and h': "document_objs h' = document_objs h"
            "base_result_objs h' = base_result_objs h @ hits lower query_tokens refs docs"
  shows "those (map (read_base_result h') (sorted_hits h (hits lower query_tokens refs docs)))
           = Some (sort_desc base_score (hit_results lower query_tokens docs))"
proof -
  let ?hs = "hits lower query_tokens refs docs"
  let ?U = "hit_results lower query_tokens docs"
  let ?n = "length (base_result_objs h)"
  let ?idx = "[?n ..< ?n + length ?hs]"
  let ?g = "\<lambda>a. ?U ! (a - ?n)"
  have lookups: "map (lookup (document_objs h)) refs = map Some docs"
    using docs by (rule those_eq_Some_map)
  then have len: "length refs = length docs" by (rule map_eq_imp_length_eq)
  have lenU: "length ?hs = length ?U" using len by (rule length_hits)
  have rd: "read_base_result h' a = Some (?g a)" if "a \<in> set ?idx" for a
  proof -
    from that obtain i where i: "i < length ?hs" and a: "a = ?n + i"
      by (auto simp: in_set_conv_nth) (metis add.commute le_add_diff_inverse2 less_diff_conv2 nat_add_left_cancel_less)
    from hits_nth [OF lookups i] obtain d where
      "?hs ! i = (d, base_score (?U ! i))" "lookup (document_objs h) d = Some (doc (?U ! i))"
      by blast
    then show ?thesis using i a by (simp add: read_base_result_def h' lookup_append lookup_def)
  qed
  have key: "map snd ?hs = map base_score ?U"
  proof (rule nth_equalityI)
    show "length (map snd ?hs) = length (map base_score ?U)" using lenU by simp
    fix i assume "i < length (map snd ?hs)"
    then have i: "i < length ?hs" by simp
    from hits_nth [OF lookups i] i lenU show "map snd ?hs ! i = map base_score ?U ! i" by auto
  qed
  have set_sorted: "set (sorted_hits h ?hs) \<subseteq> set ?idx"
    unfolding sorted_hits_def sort_desc_def by (auto dest: set_zip_rightD)
  have "those (map (read_base_result h') (sorted_hits h ?hs)) = Some (map ?g (sorted_hits h ?hs))"
    using set_sorted rd by (intro those_map_Some_comp) blast
  also have "map ?g (sorted_hits h ?hs) = sort_desc base_score ?U"
    unfolding sorted_hits_def key
    by (rule sort_refs_by_key) (use lenU in auto)
  finally show ?thesis .
qed

lemma read_base_results_search_h:
  assumes "read_engine self h = Some docs"
  shows "\<exists>res h'. search_h lower self query h = Some (res, h') \<and> unchanged h h'
           \<and> read_base_results res h' = Some (search lower docs query)"
proof -
  from assms obtain da refs where eng: "lookup (engine_objs h) self = Some da"
    and lst: "lookup (ref_lists h) da = Some refs"
    and docs: "those (map (lookup (document_objs h)) refs) = Some docs"
    by (auto simp: read_engine_def bind_eq_Some_conv)
  let ?hs = "hits lower (tokenize lower query) refs docs"
  let ?h' = "h\<lparr>ref_lists := ref_lists h @ [sorted_hits h ?hs],
              base_result_objs := base_result_objs h @ ?hs\<rparr>"
  have "search_h lower self query h = Some (length (ref_lists h), ?h')"
    using eng lst docs by (rule search_h_effect)
  moreover have "unchanged h ?h'" by (simp add: unchanged_def)
  moreover have "read_base_results (length (ref_lists h)) ?h' = Some (search lower docs query)"
    using read_sorted_hits [OF docs, of ?h' lower "tokenize lower query"]
    by (simp add: read_base_results_def lookup_def hit_results_search)
  ultimately show ?thesis by blast
qed

lemma dict_modify_effect:
  "lookup (float_dicts h) a = Some d \<Longrightarrow>
   dict_modify a f h = Some (h\<lparr>float_dicts := (float_dicts h)[a := f d]\<rparr>)"
  by (simp add: dict_modify_def)

lemma cond_dict_modify_effect:
  assumes "lookup (float_dicts h) a = Some d"
  shows "(if c then dict_modify a f h else Some h) =
     Some (h\<lparr>float_dicts := (float_dicts h)[a := (if c then f d else d)]\<rparr>)"
proof (cases c)
  case True
  with assms show ?thesis by (simp add: dict_modify_def)
next
  case False
  from assms have "(float_dicts h)[a := d] = float_dicts h" by (auto simp: lookup_Some)
  with False show ?thesis by simp
qed

lemma lookup_written:
  "lookup (float_dicts h) a = Some d \<Longrightarrow>
   lookup (float_dicts (h\<lparr>float_dicts := (float_dicts h)[a := d']\<rparr>)) a = Some d'"
  by (simp add: lookup_Some)

lemma history_loop_h_effect:
  "lookup (float_dicts h) prefs = Some d \<Longrightarrow>
   history_loop_h history prefs h =
     Some (h\<lparr>float_dicts := (float_dicts h)[prefs := fold history_step history d]\<rparr>)"
proof (induction history arbitrary: h d)
  case Nil
  then have "(float_dicts h)[prefs := d] = float_dicts h" by (auto simp: lookup_Some)
  then show ?case by simp
next
  case (Cons q history)
  let ?c1 = "sublist kw_kafe q \<or> sublist kw_restoran q \<or> sublist kw_yizha q"
  let ?c2 = "sublist kw_novyny q \<or> sublist kw_news q"
  let ?c3 = "sublist kw_kurs q \<or> sublist kw_navchannya q \<or> sublist kw_python q"
  let ?c4 = "sublist kw_sport q \<or> sublist kw_fitnes q \<or> sublist kw_baseyn q"
  let ?d1 = "if ?c1 then dict_incr food d else d"
  let ?d2 = "if ?c2 then dict_incr news ?d1 else ?d1"
  let ?d3 = "if ?c3 then dict_incr education ?d2 else ?d2"
  let ?d4 = "if ?c4 then dict_incr sport ?d3 else ?d3"
  let ?h1 = "h\<lparr>float_dicts := (float_dicts h)[prefs := ?d1]\<rparr>"
  let ?h2 = "?h1\<lparr>float_dicts := (float_dicts ?h1)[prefs := ?d2]\<rparr>"
  let ?h3 = "?h2\<lparr>float_dicts := (float_dicts ?h2)[prefs := ?d3]\<rparr>"
  let ?h4 = "?h3\<lparr>float_dicts := (float_dicts ?h3)[prefs := ?d4]\<rparr>"
  note l0 = Cons.prems
  have s1: "(if ?c1 then dict_modify prefs (dict_incr food) h else Some h) = Some ?h1"
    by (rule cond_dict_modify_effect [OF l0])
  have l1: "lookup (float_dicts ?h1) prefs = Some ?d1" by (rule lookup_written [OF l0])
  have s2: "(if ?c2 then dict_modify prefs (dict_incr news) ?h1 else Some ?h1) = Some ?h2"
    by (rule cond_dict_modify_effect [OF l1])
  have l2: "lookup (float_dicts ?h2) prefs = Some ?d2" by (rule lookup_written [OF l1])
  have s3: "(if ?c3 then dict_modify prefs (dict_incr education) ?h2 else Some ?h2) = Some ?h3"
    by (rule cond_dict_modify_effect [OF l2])
  have l3: "lookup (float_dicts ?h3) prefs = Some ?d3" by (rule lookup_written [OF l2])
  have s4: "(if ?c4 then dict_modify prefs (dict_incr sport) ?h3 else Some ?h3) = Some ?h4"
    by (rule cond_dict_modify_effect [OF l3])
  have l4: "lookup (float_dicts ?h4) prefs = Some ?d4" by (rule lookup_written [OF l3])
  have d4: "?d4 = history_step q d" by (simp only: history_step_def Let_def)
  have "history_loop_h (q # history) prefs h = history_loop_h history prefs ?h4"
    by (simp only: history_loop_h.simps s1 s2 s3 s4 Option.bind.simps)
  also have "\<dots> = Some (?h4\<lparr>float_dicts := (float_dicts ?h4)[prefs := fold history_step history ?d4]\<rparr>)"
    by (rule Cons.IH [OF l4])
  also have "\<dots> = Some (h\<lparr>float_dicts := (float_dicts h)[prefs := fold history_step (q # history) d]\<rparr>)"
    unfolding d4 by simp
  finally show ?case .
qed

lemma dict_loop_h_effect:
  "lookup (float_dicts h) target = Some d \<Longrightarrow>
   dict_loop_h step items target h =
     Some (h\<lparr>float_dicts := (float_dicts h)[target := fold step items d]\<rparr>)"
proof (induction items arbitrary: h d)
  case Nil
  then have "(float_dicts h)[target := d] = float_dicts h" by (auto simp: lookup_Some)
  then show ?case by simp
next
  case (Cons kv items)
  let ?h1 = "h\<lparr>float_dicts := (float_dicts h)[target := step kv d]\<rparr>"
  have l1: "lookup (float_dicts ?h1) target = Some (step kv d)"
    by (rule lookup_written [OF Cons.prems])
  show ?case
    using Cons.IH [OF l1] by (simp add: dict_modify_effect [OF Cons.prems])
qed

lemma build_history_preferences_h_effect:
  assumes "read_context context h = Some ctx"
  shows "build_history_preferences_h context h =
     Some (length (float_dicts h),
           h\<lparr>float_dicts := float_dicts h @ [build_history_preferences ctx]\<rparr>)"
proof -
  from assms obtain history loc seg explicit ps where
    c: "lookup (context_objs h) context = Some (history, loc, seg, explicit)"
    and qs: "lookup (str_lists h) history = Some (query_history ctx)"
    and "lookup (float_dicts h) explicit = Some ps"
    by (auto simp: read_context_def bind_eq_Some_conv)
  let ?p = "length (float_dicts h)"
  let ?d0 = "map (\<lambda>cat. (cat, 0.0)) [food, news, education, sport]"
  let ?h1 = "h\<lparr>float_dicts := float_dicts h @ [?d0]\<rparr>"
  let ?d1 = "fold history_step (query_history ctx) ?d0"
  let ?h2 = "?h1\<lparr>float_dicts := (float_dicts ?h1)[?p := ?d1]\<rparr>"
  let ?h3 = "?h2\<lparr>float_dicts := (float_dicts ?h2)[?p := fold weight_step ?d1 ?d1]\<rparr>"
  have l1: "lookup (float_dicts ?h1) ?p = Some ?d0" by (simp add: lookup_def)
  have s1: "history_loop_h (query_history ctx) ?p ?h1 = Some ?h2"
    by (rule history_loop_h_effect [OF l1])
  have l2: "lookup (float_dicts ?h2) ?p = Some ?d1" by (rule lookup_written [OF l1])
  have s2: "dict_loop_h weight_step ?d1 ?p ?h2 = Some ?h3"
    by (rule dict_loop_h_effect [OF l2])
  have "build_history_preferences_h context h = Some (?p, ?h3)"
    unfolding build_history_preferences_h_def new_dict_def
    using c qs s1 l2 s2 by simp
  moreover have "?h3 = h\<lparr>float_dicts := float_dicts h @ [build_history_preferences ctx]\<rparr>"
    by (simp add: build_history_preferences_def Let_def)
  ultimately show ?thesis by simp
qed

lemma read_context_cong:
  "context_objs h' = context_objs h \<Longrightarrow> str_lists h' = str_lists h \<Longrightarrow>
   float_dicts h' = float_dicts h \<Longrightarrow> read_context context h' = read_context context h"
  by (simp add: read_context_def)

lemma read_base_result_cong:
  "base_result_objs h' = base_result_objs h \<Longrightarrow> document_objs h' = document_objs h \<Longrightarrow>
   read_base_result h' = read_base_result h"
  by (rule ext) (simp add: read_base_result_def)

lemma adapt_loop_h_effect:
  assumes "read_context context h = Some ctx"
    and "lookup (float_dicts h) combined = Some prefs"
    and "lookup (ref_lists h) adapted = Some acc"
    and "those (map (read_base_result h) items) = Some rs"
  shows "adapt_loop_h lower context combined items adapted h =
     Some (h\<lparr>ref_lists := (ref_lists h)
               [adapted := acc @ [length (context_result_objs h) ..<
                    length (context_result_objs h) + length items]],
             context_result_objs :=
               context_result_objs h @ map (adapted_obj lower ctx prefs h) items\<rparr>)"
  using assms
proof (induction items arbitrary: h acc rs)
  case Nil
  then have "(ref_lists h)[adapted := acc] = ref_lists h" by (auto simp: lookup_Some)
  then show ?case by simp
next
  case (Cons item items)
  from Cons.prems(4) obtain r rs' where
    head: "read_base_result h item = Some r"
    and rest: "those (map (read_base_result h) items) = Some rs'"
    by (auto split: option.splits)
  from head obtain d score document where
    item: "lookup (base_result_objs h) item = Some (d, score)"
    and document: "lookup (document_objs h) d = Some document"
    by (auto simp: read_base_result_def bind_eq_Some_conv)
  let ?m = "length (context_result_objs h)"
  let ?obj = "adapted_obj lower ctx prefs h item"
  let ?h1 = "h\<lparr>context_result_objs := context_result_objs h @ [?obj]\<rparr>"
  let ?h2 = "?h1\<lparr>ref_lists := (ref_lists ?h1)[adapted := acc @ [?m]]\<rparr>"
  have obj: "?obj = (d, base_score (adapt lower ctx prefs \<lparr>doc = document, base_score = score\<rparr>),
      final_score (adapt lower ctx prefs \<lparr>doc = document, base_score = score\<rparr>),
      context_info (adapt lower ctx prefs \<lparr>doc = document, base_score = score\<rparr>))"
    using item document by (simp add: adapted_obj_def lookup_Some Let_def)
  from Cons.prems(3) have ad: "adapted < length (ref_lists h)" by (simp add: lookup_Some)
  have step: "adapt_loop_h lower context combined (item # items) adapted h =
      adapt_loop_h lower context combined items adapted ?h2"
    using item document Cons.prems(1,2,3)
    by (simp add: new_context_result_def list_append_def obj)
  have c2: "read_context context ?h2 = Some ctx"
    using Cons.prems(1) by (simp add: read_context_def)
  have p2: "lookup (float_dicts ?h2) combined = Some prefs" using Cons.prems(2) by simp
  have a2: "lookup (ref_lists ?h2) adapted = Some (acc @ [?m])" using ad by (simp add: lookup_def)
  have "read_base_result ?h2 = read_base_result h"
    by (rule read_base_result_cong) simp_all
  then have r2: "those (map (read_base_result ?h2) items) = Some rs'"
    using rest by (simp only:)
  have objs: "map (adapted_obj lower ctx prefs ?h2) items = map (adapted_obj lower ctx prefs h) items"
    by (simp add: adapted_obj_def)
  show ?case
    unfolding step Cons.IH [OF c2 p2 a2 r2] objs
    by (simp add: upt_shift del: upt_Suc)
qed

lemma read_adapted_objs:
  assumes rs: "those (map (read_base_result h) items) = Some rs"
    and h': "document_objs h' = document_objs h"
      "context_result_objs h' = context_result_objs h @ map (adapted_obj lower ctx prefs h) items"
    and a: "a \<in> set [length (context_result_objs h) ..< length (context_result_objs h) + length items]"
  shows "read_context_result h' a =
           Some (map (adapt lower ctx prefs) rs ! (a - length (context_result_objs h)))"
proof -
  let ?m = "length (context_result_objs h)"
  from a obtain i where i: "i < length items" and ai: "a = ?m + i"
    by (auto simp: in_set_conv_nth) (metis add.commute le_add_diff_inverse2 less_diff_conv2 nat_add_left_cancel_less)
  have eq: "map (read_base_result h) items = map Some rs" using rs by (rule those_eq_Some_map)
  then have len: "length items = length rs" by (rule map_eq_imp_length_eq)
  from eq i have "read_base_result h (items ! i) = Some (rs ! i)"
    by (metis len nth_map)
  then obtain d score document where
    item: "lookup (base_result_objs h) (items ! i) = Some (d, score)"
    and document: "lookup (document_objs h) d = Some document"
    and r: "rs ! i = \<lparr>doc = document, base_score = score\<rparr>"
    by (auto simp: read_base_result_def bind_eq_Some_conv)
  have "adapted_obj lower ctx prefs h (items ! i) =
      (d, base_score (adapt lower ctx prefs (rs ! i)), final_score (adapt lower ctx prefs (rs ! i)),
       context_info (adapt lower ctx prefs (rs ! i)))"
    using item document r by (simp add: adapted_obj_def lookup_Some Let_def)
  moreover have "doc (adapt lower ctx prefs (rs ! i)) = document"
    using r by (simp add: adapt_fields)
  ultimately show ?thesis
    using i ai len document
    by (simp add: read_context_result_def h' lookup_append lookup_def)
qed

lemma read_context_result_cong:
  "context_result_objs h' = context_result_objs h \<Longrightarrow> document_objs h' = document_objs h \<Longrightarrow>
   read_context_result h' = read_context_result h"
  by (rule ext) (simp add: read_context_result_def)

lemma final_key_of_read:
  "read_context_result h a = Some r \<Longrightarrow>
   map_option (\<lambda>(d, base, final, info). final) (lookup (context_result_objs h) a) = Some (final_score r)"
  by (auto simp: read_context_result_def bind_eq_Some_conv)

lemma upt_offset_nth: "map (\<lambda>a. xs ! (a - m)) [m ..< m + length xs] = xs"
  by (rule nth_equalityI) auto

lemma sorted_refs_subset: "set (map snd (sort_desc fst (zip keys refs))) \<subseteq> set refs"
  unfolding sort_desc_def by (auto dest: set_zip_rightD)

lemma search_with_context_h_empty:
  assumes search: "search_h lower self query h = Some (r, hA)"
    and items: "lookup (ref_lists hA) r = Some []"
    and base: "read_base_results r hA = Some (search lower docs query)"
  shows "search_with_context_h lower self query context h =
           Some (length (ref_lists hA), hA\<lparr>ref_lists := ref_lists hA @ [[]]\<rparr>)"
    and "search lower docs query = []"
  using assms by (simp_all add: search_with_context_h_def new_list_def read_base_results_def)

lemma unchanged_refl: "unchanged h h"
  by (simp add: unchanged_def)

lemma unchanged_trans: "unchanged h h1 \<Longrightarrow> unchanged h1 h2 \<Longrightarrow> unchanged h h2"
  by (auto simp: unchanged_def)

lemma lookup_prefix: "prefix xs ys \<Longrightarrow> lookup xs a = Some v \<Longrightarrow> lookup ys a = Some v"
  by (auto simp: prefix_def lookup_def nth_append split: if_splits)

lemma read_context_unchanged:
  "unchanged h h' \<Longrightarrow> read_context context h = Some ctx \<Longrightarrow> read_context context h' = Some ctx"
  by (auto simp: unchanged_def read_context_def bind_eq_Some_conv dest: lookup_prefix)

lemma read_engine_unchanged:
  assumes "unchanged h h'" "read_engine self h = Some docs"
  shows "read_engine self h' = Some docs"
proof -
  from assms(2) obtain da refs where "lookup (engine_objs h) self = Some da"
    "lookup (ref_lists h) da = Some refs" "those (map (lookup (document_objs h)) refs) = Some docs"
    by (auto simp: read_engine_def bind_eq_Some_conv)
  moreover from this assms(1) have "lookup (ref_lists h') da = Some refs"
    by (auto simp: unchanged_def dest: lookup_prefix)
  ultimately show ?thesis using assms(1) by (simp add: read_engine_def unchanged_def)
qed

lemma search_with_context_h_nonempty:
  assumes search: "search_h lower self query h = Some (r, hA)"
    and items: "lookup (ref_lists hA) r = Some S" "S \<noteq> []"
    and base: "those (map (read_base_result hA) S) = Some rs"
    and ctx: "read_context context hA = Some ctx"
  shows "\<exists>res h'. search_with_context_h lower self query context h = Some (res, h')
           \<and> unchanged hA h'
           \<and> read_context_results res h' =
               Some (sort_desc final_score
                 (map (adapt lower ctx
                    (combine_prefs (build_history_preferences ctx) (preferences ctx))) rs))"
proof -
  define bhp where "bhp = build_history_preferences ctx"
  define combined where "combined = combine_prefs bhp (preferences ctx)"
  define p where "p = length (float_dicts hA)"
  define a where "a = length (ref_lists hA)"
  define m where "m = length (context_result_objs hA)"
  define A where "A = map (adapt lower ctx combined) rs"
  define idx where "idx = [m ..< m + length S]"
  define sorted where "sorted = map snd (sort_desc fst (zip (map final_score A) idx))"
  from ctx obtain history loc seg explicit where
    c: "lookup (context_objs hA) context = Some (history, loc, seg, explicit)"
    and qs: "lookup (str_lists hA) history = Some (query_history ctx)"
    and ps: "lookup (float_dicts hA) explicit = Some (preferences ctx)"
    by (auto simp: read_context_def bind_eq_Some_conv)
  from ps have explicit: "explicit < p" by (simp add: lookup_Some p_def)
  have len: "length S = length rs"
    using those_eq_Some_map [OF base] by (rule map_eq_imp_length_eq)
  define hB where "hB = hA\<lparr>float_dicts := float_dicts hA @ [bhp]\<rparr>"
  have sB: "build_history_preferences_h context hA = Some (p, hB)"
    unfolding p_def hB_def bhp_def by (rule build_history_preferences_h_effect [OF ctx])
  have lB: "lookup (float_dicts hB) p = Some bhp" by (simp add: hB_def p_def lookup_def)
  define hC where "hC = hB\<lparr>float_dicts := float_dicts hB @ [bhp]\<rparr>"
  have nC: "new_dict bhp hB = (Suc p, hC)" by (simp add: new_dict_def hC_def hB_def p_def)
  have cC: "lookup (context_objs hC) context = Some (history, loc, seg, explicit)"
    using c by (simp add: hC_def hB_def)
  have psC: "lookup (float_dicts hC) explicit = Some (preferences ctx)"
    using ps explicit by (simp add: hC_def hB_def lookup_append lookup_Some p_def)
  have lC: "lookup (float_dicts hC) (Suc p) = Some bhp"
    by (simp add: hC_def hB_def p_def lookup_def nth_append)
  define hD where "hD = hC\<lparr>float_dicts := (float_dicts hC)[Suc p := combined]\<rparr>"
  have sD: "dict_loop_h merge_step (preferences ctx) (Suc p) hC = Some hD"
    unfolding hD_def combined_def combine_prefs_def by (rule dict_loop_h_effect [OF lC])
  define hE where "hE = hD\<lparr>ref_lists := ref_lists hD @ [[]]\<rparr>"
  have rlD: "ref_lists hD = ref_lists hA" by (simp add: hD_def hC_def hB_def)
  have nE: "new_list hD = (a, hE)" by (simp add: new_list_def hE_def rlD a_def)
  have cE: "read_context context hE = Some ctx"
    using c qs psC ctx
    by (auto simp: read_context_def hE_def hD_def bind_eq_Some_conv lookup_update lookup_Some
        hC_def hB_def p_def nth_append)
  have pE: "lookup (float_dicts hE) (Suc p) = Some combined"
    by (simp add: hE_def hD_def hC_def hB_def p_def lookup_def)
  have aE: "lookup (ref_lists hE) a = Some []"
    by (simp add: hE_def rlD a_def lookup_def)
  have "read_base_result hE = read_base_result hA"
    by (rule read_base_result_cong) (simp_all add: hE_def hD_def hC_def hB_def)
  then have rE: "those (map (read_base_result hE) S) = Some rs" using base by (simp only:)
  have mE: "length (context_result_objs hE) = m"
    by (simp add: hE_def hD_def hC_def hB_def m_def)
  define hF where "hF = hE\<lparr>ref_lists := (ref_lists hE)[a := idx],
      context_result_objs := context_result_objs hE @ map (adapted_obj lower ctx combined hE) S\<rparr>"
  have sF: "adapt_loop_h lower context (Suc p) S a hE = Some hF"
    unfolding adapt_loop_h_effect [OF cE pE aE rE] hF_def idx_def mE by simp
  have readF: "read_context_result hF x = Some (A ! (x - m))" if "x \<in> set idx" for x
    unfolding A_def
    by (rule read_adapted_objs [OF rE, of hF lower ctx combined x, unfolded mE])
       (use that in \<open>simp_all add: hF_def idx_def\<close>)
  have aF: "lookup (ref_lists hF) a = Some idx"
    by (simp add: hF_def hE_def rlD a_def lookup_def)
  have "map (\<lambda>x. map_option (\<lambda>(d, base, final, info). final) (lookup (context_result_objs hF) x)) idx
      = map (\<lambda>x. Some (final_score (A ! (x - m)))) idx"
    using readF by (intro map_cong refl final_key_of_read)
  also have "\<dots> = map Some (map final_score (map (\<lambda>x. A ! (x - m)) idx))" by simp
  also have "map (\<lambda>x. A ! (x - m)) idx = A"
    unfolding idx_def using upt_offset_nth [of A m] len by (simp add: A_def)
  finally have keys: "those (map (\<lambda>x. map_option (\<lambda>(d, base, final, info). final)
      (lookup (context_result_objs hF) x)) idx) = Some (map final_score A)"
    by (simp only: those_map_Some)
  define hG where "hG = hF\<lparr>ref_lists := (ref_lists hF)[a := sorted]\<rparr>"
  have sG: "list_sort a (\<lambda>x. map_option (\<lambda>(d, base, final, info). final)
      (lookup (context_result_objs hF) x)) hF = Some hG"
    unfolding list_sort_effect [OF aF keys] hG_def sorted_def ..
  have run: "search_with_context_h lower self query context h = Some (a, hG)"
    unfolding search_with_context_h_def
    using search items sB lB nC cC psC sD nE sF sG by simp
  have frame: "unchanged hA hG"
    by (simp add: unchanged_def hG_def hF_def hE_def hD_def hC_def hB_def a_def p_def
        list_update_append nth_append)
  have "read_context_result hG = read_context_result hF"
    by (rule read_context_result_cong) (simp_all add: hG_def)
  with readF have readG: "read_context_result hG x = Some (A ! (x - m))" if "x \<in> set idx" for x
    using that by simp
  have sub: "set sorted \<subseteq> set idx" unfolding sorted_def by (rule sorted_refs_subset)
  have "lookup (ref_lists hG) a = Some sorted"
    by (simp add: hG_def hF_def hE_def rlD a_def lookup_def)
  moreover have "those (map (read_context_result hG) sorted) = Some (map (\<lambda>x. A ! (x - m)) sorted)"
    using sub readG by (intro those_map_Some_comp) blast
  moreover have "map (\<lambda>x. A ! (x - m)) sorted = sort_desc final_score A"
    unfolding sorted_def
    by (rule sort_refs_by_key) (use len in \<open>auto simp: idx_def A_def\<close>)
  ultimately have "read_context_results a hG = Some (sort_desc final_score A)"
    by (simp add: read_context_results_def)
  with run frame show ?thesis unfolding A_def combined_def bhp_def by blast
qed

text \<open>
  Claim C10. On a store in which the engine's document list and the context can be read, both
  \<open>search\<close> and \<open>search_with_context\<close> return, and in the store they leave every object
  that existed before the call is as it was: the Document objects, the engine, the context
  object, its history list, the document list and the preferences dict. The engine still
  reads as the same documents and the context as the same context, and the returned list
  reads as the result of the value-level function.
\<close>

theorem inputs_not_mutated:
  assumes eng: "read_engine self h = Some documents"
    and ctx: "read_context context h = Some ctx"
  shows "(\<exists>res h'. search_h lower self query h = Some (res, h') \<and> unchanged h h'
            \<and> read_engine self h' = Some documents \<and> read_context context h' = Some ctx
            \<and> read_base_results res h' = Some (search lower documents query))
       \<and> (\<exists>res h'. search_with_context_h lower self query context h = Some (res, h')
            \<and> unchanged h h'
            \<and> read_engine self h' = Some documents \<and> read_context context h' = Some ctx
            \<and> read_context_results res h' =
                 Some (search_with_context lower documents query ctx))"
proof -
  from read_base_results_search_h [OF eng, of lower query] obtain r hA where
    search: "search_h lower self query h = Some (r, hA)" and frameA: "unchanged h hA"
    and base: "read_base_results r hA = Some (search lower documents query)"
    by blast
  have engA: "read_engine self hA = Some documents" using frameA eng by (rule read_engine_unchanged)
  have ctxA: "read_context context hA = Some ctx" using frameA ctx by (rule read_context_unchanged)
  from base obtain S where items: "lookup (ref_lists hA) r = Some S"
    and rs: "those (map (read_base_result hA) S) = Some (search lower documents query)"
    by (auto simp: read_base_results_def bind_eq_Some_conv)
  have "\<exists>res h'. search_with_context_h lower self query context h = Some (res, h')
      \<and> unchanged hA h'
      \<and> read_context_results res h' = Some (search_with_context lower documents query ctx)"
  proof (cases "S = []")
    case True
    with items have items': "lookup (ref_lists hA) r = Some []" by simp
    let ?h' = "hA\<lparr>ref_lists := ref_lists hA @ [[]]\<rparr>"
    have run: "search_with_context_h lower self query context h = Some (length (ref_lists hA), ?h')"
      by (rule search_with_context_h_empty(1) [OF search items' base])
    have empty: "search lower documents query = []"
      by (rule search_with_context_h_empty(2) [OF search items' base])
    have "unchanged hA ?h'" by (simp add: unchanged_def)
    moreover have "read_context_results (length (ref_lists hA)) ?h' = Some []"
      by (simp add: read_context_results_def lookup_def)
    moreover have "search_with_context lower documents query ctx = []"
      using empty by (simp add: search_with_context_def)
    ultimately show ?thesis using run by auto
  next
    case False
    from search_with_context_h_nonempty [OF search items False rs ctxA]
    show ?thesis by (simp add: search_with_context_sorted_map)
  qed
  then obtain res h' where run: "search_with_context_h lower self query context h = Some (res, h')"
    and frame': "unchanged hA h'"
    and out: "read_context_results res h' = Some (search_with_context lower documents query ctx)"
    by blast
  have frame: "unchanged h h'" using frameA frame' by (rule unchanged_trans)
  have "read_engine self h' = Some documents" using frame eng by (rule read_engine_unchanged)
  moreover have "read_context context h' = Some ctx" using frame ctx by (rule read_context_unchanged)
  ultimately show ?thesis using search frameA engA ctxA base run frame out by blast
qed

lemma example_heap_reads:
  "read_engine 0 example_heap = Some [example_doc]"
  "read_context 0 example_heap = Some example_context"
  by (simp_all add: read_engine_def read_context_def example_heap_def lookup_def)

text \<open>
  The theorem at a store holding the corpus and the context of the end-to-end example.
\<close>

theorem inputs_not_mutated_witness:
  "read_engine 0 example_heap = Some [example_doc]
   \<and> read_context 0 example_heap = Some example_context
   \<and> (\<exists>res h'. search_with_context_h lower_latin_cyrillic 0 kw_kafe 0 example_heap = Some (res, h')
        \<and> unchanged example_heap h'
        \<and> read_engine 0 h' = Some [example_doc] \<and> read_context 0 h' = Some example_context
        \<and> read_context_results res h' =
             Some (search_with_context lower_latin_cyrillic [example_doc] kw_kafe example_context))"
  using inputs_not_mutated [OF example_heap_reads, of lower_latin_cyrillic kw_kafe]
    example_heap_reads
  by blast


end
